theory Spec2Isabelle
  imports Complex_Main "HOL-Library.Word" "HOL-Library.Multiset" "HOL-Library.Log_Nat"
begin

unbundle bit_operations_syntax

section \<open>Data\<close>

text \<open>
  A \<^verbatim>\<open>Buffer\<close> is a list of bytes. A JavaScript string that only holds ASCII text,
  as every string literal of the source does, is a \<^typ>\<open>string\<close>.
\<close>

type_synonym byte = "8 word"
type_synonym bytes = "byte list"

text \<open>\<^verbatim>\<open>Buffer.from(str)\<close>: the UTF-8 bytes of the string, one byte per ASCII character.\<close>

definition Buffer_from :: "string \<Rightarrow> bytes" where
  "Buffer_from str = map of_char str"

text \<open>
  \<^verbatim>\<open>buf.toString()\<close>: the bytes read as UTF-8. An ASCII byte decodes to its own character;
  any other byte decodes to a character outside ASCII, which the model keeps as the byte
  itself. Comparisons with an ASCII literal are the same either way.
\<close>

definition toString :: "bytes \<Rightarrow> string" where
  "toString buf = map (\<lambda>b. char_of (unat b)) buf"

text \<open>
  A \<^verbatim>\<open>PeerId\<close> of the peer-id package: the identifier bytes and the optional keys.
  A public or private key is kept as its marshalled bytes.
\<close>

type_synonym pubkey = bytes

record PeerId =
  id_buf :: bytes
  privKey :: "bytes option"
  pubKey :: "pubkey option"

text \<open>\<^verbatim>\<open>new PeerId(id, privKey, pubKey)\<close>; the keys default to undefined.\<close>

definition new_PeerId :: "bytes \<Rightarrow> bytes option \<Rightarrow> pubkey option \<Rightarrow> PeerId" where
  "new_PeerId i priv pub = \<lparr>id_buf = i, privKey = priv, pubKey = pub\<rparr>"

text \<open>\<^verbatim>\<open>a.isEqual(b)\<close> compares the identifier bytes.\<close>

definition isEqual :: "PeerId \<Rightarrow> PeerId \<Rightarrow> bool" where
  "isEqual a b = (id_buf a = id_buf b)"

text \<open>
  Every \<^verbatim>\<open>throw\<close> of the source is a value of \<open>error\<close>: the codes that
  \<^verbatim>\<open>errcode\<close> attaches to an error in \<^verbatim>\<open>peer-routing/index.js\<close>, the \<^verbatim>\<open>TypeError\<close> that
  JavaScript raises when a property of \<^verbatim>\<open>undefined\<close> is read or written, the
  \<^verbatim>\<open>TimeoutError\<close> with which \<^verbatim>\<open>pTimeout\<close> rejects, and \<open>Other\<close> for whatever
  a collaborator throws.
\<close>

datatype error =
    ERR_INVALID_RECORD
  | ERR_PUBLIC_KEY_DOES_NOT_MATCH_ID
  | ERR_LOOKUP_FAILED
  | ERR_NOT_FOUND
  | TypeError
  | TimeoutError
  | Other string

text \<open>
  \<^verbatim>\<open>errcode(err, code)\<close> of the err-code package, version 2: given an \<^verbatim>\<open>Error\<close> it
  returns that error with the code attached; given anything else, a string too, it
  throws \<^verbatim>\<open>TypeError('Please pass an Error to err-code')\<close>. The value is the error
  that \<^verbatim>\<open>throw errcode(...)\<close> raises. Where the source passes \<^verbatim>\<open>new Error(...)\<close>
  (lines 132 and 191) the model writes the code itself.
\<close>

datatype errcode_arg = New_Error string | Plain_string string

definition errcode :: "errcode_arg \<Rightarrow> error \<Rightarrow> error" where
  "errcode err code = (case err of New_Error message \<Rightarrow> code | Plain_string message \<Rightarrow> TypeError)"

section \<open>utils\<close>

text \<open>
  \<^verbatim>\<open>convertBuffer\<close> and \<^verbatim>\<open>convertPeerId\<close> hash with
  \<^verbatim>\<open>multihashing.digest(_, 'sha2-256')\<close>. The digest function is a parameter.
\<close>

definition convertBuffer :: "(bytes \<Rightarrow> bytes) \<Rightarrow> bytes \<Rightarrow> bytes" where
  "convertBuffer digest buf = digest buf"

definition convertPeerId :: "(bytes \<Rightarrow> bytes) \<Rightarrow> PeerId \<Rightarrow> bytes" where
  "convertPeerId digest peer = digest (id_buf peer)"

text \<open>\<^verbatim>\<open>keyForPublicKey\<close>: \<^verbatim>\<open>Buffer.concat([Buffer.from('/pk/'), peer.id])\<close>.\<close>

definition keyForPublicKey :: "PeerId \<Rightarrow> bytes" where
  "keyForPublicKey peer = concat [Buffer_from ''/pk/'', id_buf peer]"

text \<open>\<^verbatim>\<open>isPublicKeyKey\<close>: \<^verbatim>\<open>key.slice(0, 4).toString() === '/pk/'\<close>.\<close>

definition isPublicKeyKey :: "bytes \<Rightarrow> bool" where
  "isPublicKeyKey key = (toString (take 4 key) = ''/pk/'')"

text \<open>\<^verbatim>\<open>fromPublicKeyKey\<close>: \<^verbatim>\<open>new PeerId(key.slice(4))\<close>.\<close>

definition fromPublicKeyKey :: "bytes \<Rightarrow> PeerId" where
  "fromPublicKeyKey key = new_PeerId (drop 4 key) None None"

text \<open>
  A JavaScript number is an IEEE 754 double. An integer is a double when its magnitude
  is below \<open>2 ^ 1024\<close> and has at most 53 significant bits.
\<close>

definition double_int :: "int \<Rightarrow> bool" where
  "double_int a = (\<bar>a\<bar> < 2 ^ 1024 \<and> \<bar>a\<bar> mod 2 ^ nat (bitlen \<bar>a\<bar> - 53) = 0)"

text \<open>Rounding to the nearest integer, a tie to the even one.\<close>

definition round_half_even :: "rat \<Rightarrow> int" where
  "round_half_even x =
     (let f = \<lfloor>x\<rfloor>; rest = x - of_int f
      in if rest < 1 / 2 then f
         else if 1 / 2 < rest then f + 1
         else if even f then f else f + 1)"

text \<open>
  The quotient \<open>a / b\<close> of two positive integers as a double. The exact quotient is
  scaled by a power of two, \<open>2 powi e\<close>, such that it lies between \<open>2 ^ 52\<close> and
  \<open>2 ^ 53\<close>, rounded to an integer, ties to even, and scaled back; \<open>e\<close> is not
  below \<open>- 1074\<close>, the exponent of the subnormal doubles. The quotient of two doubles
  with \<open>b \<ge> 1\<close> is at most \<open>a\<close> and does not overflow.
\<close>

definition double_exponent :: "int \<Rightarrow> int \<Rightarrow> int" where
  "double_exponent a b =
     (let d = bitlen a - bitlen b;
          e = (if of_int a < of_int b * (2::rat) powi d then d - 53 else d - 52)
      in max e (- 1074))"

definition double_quotient :: "int \<Rightarrow> int \<Rightarrow> rat" where
  "double_quotient a b =
     (let e = double_exponent a b
      in of_int (round_half_even (of_int a / of_int b / 2 powi e)) * 2 powi e)"

text \<open>
  \<open>a / b\<close> for integers that are doubles: the sign is that of the exact quotient, a
  zero numerator gives zero, and a zero divisor gives an infinity or NaN, for which the
  value is \<open>None\<close>.
\<close>

definition double_div :: "int \<Rightarrow> int \<Rightarrow> rat option" where
  "double_div a b =
     (if b = 0 then None
      else if a = 0 then Some 0
      else Some (of_int (sgn a * sgn b) * double_quotient \<bar>a\<bar> \<bar>b\<bar>))"

text \<open>\<^verbatim>\<open>Math.ceil\<close>; of an infinity or NaN it is that value again.\<close>

definition Math_ceil :: "rat option \<Rightarrow> int option" where
  "Math_ceil x = map_option ceiling x"

text \<open>
  \<^verbatim>\<open>pathSize\<close>: \<^verbatim>\<open>Math.ceil(resultsWanted / numPaths)\<close>, for arguments that are
  integers.
\<close>

definition pathSize :: "int \<Rightarrow> int \<Rightarrow> int option" where
  "pathSize resultsWanted numPaths = Math_ceil (double_div resultsWanted numPaths)"

text \<open>
  The base32.js package (a dependency, version 0.1). \<^verbatim>\<open>new base32.Encoder()\<close> without
  options starts with an empty \<^verbatim>\<open>buf\<close>, \<^verbatim>\<open>shift = 3\<close>, \<^verbatim>\<open>carry = 0\<close> and the
  prototype's alphabet, the upper-case alphabet of RFC 4648; the lower-case one needs
  the option \<^verbatim>\<open>lc\<close>.
\<close>

definition rfc4648_alphabet :: string where
  "rfc4648_alphabet = ''ABCDEFGHIJKLMNOPQRSTUVWXYZ234567''"

record Encoder =
  buf :: string
  shift :: nat
  carry :: nat
  alphabet :: string

definition new_Encoder :: Encoder where
  "new_Encoder = \<lparr>buf = [], shift = 3, carry = 0, alphabet = rfc4648_alphabet\<rparr>"

text \<open>
  The body of the loop of \<^verbatim>\<open>Encoder.prototype.write\<close>, for one byte:
  \<^verbatim>\<open>
    symbol = carry | (byte >> shift);
    this.buf += this.alphabet[symbol & 0x1f];
    if (shift > 5) {
      shift -= 5;
      symbol = byte >> shift;
      this.buf += this.alphabet[symbol & 0x1f];
    }
    shift = 5 - shift;
    carry = byte << shift;
    shift = 8 - shift;
  \<close>
  The numbers stay small (\<open>shift \<le> 8\<close>, \<open>carry < 2 ^ 12\<close>), so they are natural numbers;
  \<open>5 - shift\<close> is never negative, since \<open>shift\<close> is at most 5 there.
\<close>

definition write_byte :: "Encoder \<Rightarrow> byte \<Rightarrow> Encoder" where
  "write_byte enc b =
     (let byte = unat b;
          symbol = carry enc OR drop_bit (shift enc) byte;
          buf1 = buf enc @ [alphabet enc ! (symbol AND 31)];
          shift1 = (if shift enc > 5 then shift enc - 5 else shift enc);
          buf2 = (if shift enc > 5
                  then buf1 @ [alphabet enc ! (drop_bit shift1 byte AND 31)]
                  else buf1);
          shift2 = 5 - shift1;
          carry2 = push_bit shift2 byte;
          shift3 = 8 - shift2
      in enc\<lparr>buf := buf2, shift := shift3, carry := carry2\<rparr>)"

definition Encoder_write :: "Encoder \<Rightarrow> bytes \<Rightarrow> Encoder" where
  "Encoder_write enc bs = foldl write_byte enc bs"

text \<open>
  \<^verbatim>\<open>Encoder.prototype.finalize\<close>: when \<^verbatim>\<open>shift !== 3\<close>, bits are pending and
  \<^verbatim>\<open>alphabet[carry & 0x1f]\<close> is appended; there is no padding character.
\<close>

definition Encoder_finalize :: "Encoder \<Rightarrow> string" where
  "Encoder_finalize enc =
     (if shift enc \<noteq> 3 then buf enc @ [alphabet enc ! (carry enc AND 31)] else buf enc)"

text \<open>\<^verbatim>\<open>encodeBase32\<close>: \<^verbatim>\<open>new base32.Encoder().write(buf).finalize()\<close>.\<close>

definition encodeBase32 :: "bytes \<Rightarrow> string" where
  "encodeBase32 b = Encoder_finalize (Encoder_write new_Encoder b)"

text \<open>
  \<^verbatim>\<open>bufferToKey\<close>: \<^verbatim>\<open>new Key('/' + encodeBase32(buf), false)\<close>. With \<^verbatim>\<open>clean\<close>
  false the key keeps the string as it is; the string starts with \<open>/\<close>, as the
  constructor of \<^verbatim>\<open>Key\<close> requires. A key is its string.
\<close>

definition bufferToKey :: "bytes \<Rightarrow> string" where
  "bufferToKey b = ''/'' @ encodeBase32 b"

text \<open>
  Base 32 of RFC 4648 without padding, as the specification words it: the bits of the
  bytes, most significant first, in groups of five, the last group filled up with zero
  bits, each group the index of a character of the alphabet.
\<close>

fun bits_of :: "nat \<Rightarrow> nat \<Rightarrow> bool list" where
  "bits_of 0 n = []"
| "bits_of (Suc k) n = bits_of k (n div 2) @ [odd n]"

definition byte_bits :: "byte \<Rightarrow> bool list" where
  "byte_bits b = bits_of 8 (unat b)"

fun bits_value :: "bool list \<Rightarrow> nat" where
  "bits_value [] = 0"
| "bits_value (b # bs) = of_bool b * 2 ^ length bs + bits_value bs"

function groups5 :: "bool list \<Rightarrow> bool list list" where
  "groups5 [] = []"
| "groups5 (b # bs) = take 5 (b # bs @ replicate 4 False) # groups5 (drop 4 bs)"
  by pat_completeness auto
termination
  by (relation "measure length") auto

definition spec_base32 :: "string \<Rightarrow> bytes \<Rightarrow> string" where
  "spec_base32 alph bs = map (\<lambda>g. alph ! bits_value g) (groups5 (concat (map byte_bits bs)))"

definition lowercase_alphabet :: string where
  "lowercase_alphabet = ''abcdefghijklmnopqrstuvwxyz234567''"

text \<open>
  The xor-distance package (a dependency). \<^verbatim>\<open>distance(a, b)\<close> throws when the lengths
  differ and is the bytewise XOR otherwise. \<^verbatim>\<open>distance.compare(a, b)\<close> throws when the
  lengths differ; otherwise the first position where the bytes differ decides between
  \<open>-1\<close> and \<open>1\<close>, and the result is \<open>0\<close> when there is none.
\<close>

definition distance :: "bytes \<Rightarrow> bytes \<Rightarrow> error + bytes" where
  "distance a b =
     (if length a \<noteq> length b then Inl (Other ''Inputs should have the same length'')
      else Inr (map2 (XOR) a b))"

fun compare_loop :: "bytes \<Rightarrow> bytes \<Rightarrow> int" where
  "compare_loop (x # xs) (y # ys) =
     (if x = y then compare_loop xs ys else if x < y then - 1 else 1)"
| "compare_loop xs ys = 0"

definition compare :: "bytes \<Rightarrow> bytes \<Rightarrow> error + int" where
  "compare a b =
     (if length a \<noteq> length b then Inl (Other ''Inputs should have the same length'')
      else Inr (compare_loop a b))"

text \<open>\<^verbatim>\<open>{ peer, distance }\<close>, the elements that \<^verbatim>\<open>sortClosestPeers\<close> sorts.\<close>

record PeerDistance =
  d_peer :: PeerId
  d_distance :: bytes

definition xorCompare :: "PeerDistance \<Rightarrow> PeerDistance \<Rightarrow> error + int" where
  "xorCompare a b = compare (d_distance a) (d_distance b)"

text \<open>
  \<^verbatim>\<open>pMap(xs, mapper)\<close>: the results in the order of the input, or the rejection of a
  mapper.
\<close>

fun pMap :: "('a \<Rightarrow> error + 'b) \<Rightarrow> 'a list \<Rightarrow> error + 'b list" where
  "pMap mapper [] = Inr []"
| "pMap mapper (x # xs) =
     (case mapper x of
        Inl e \<Rightarrow> Inl e
      | Inr y \<Rightarrow> (case pMap mapper xs of Inl e \<Rightarrow> Inl e | Inr ys \<Rightarrow> Inr (y # ys)))"

text \<open>
  \<^verbatim>\<open>array.sort(compareFn)\<close>: a stable sort; an element goes before the first element
  that it does not compare greater than. What the comparison throws, the sort throws.
\<close>

fun insert_sorted :: "('a \<Rightarrow> 'a \<Rightarrow> error + int) \<Rightarrow> 'a \<Rightarrow> 'a list \<Rightarrow> error + 'a list" where
  "insert_sorted compareFn x [] = Inr [x]"
| "insert_sorted compareFn x (y # ys) =
     (case compareFn x y of
        Inl e \<Rightarrow> Inl e
      | Inr c \<Rightarrow>
          if c \<le> 0 then Inr (x # y # ys)
          else (case insert_sorted compareFn x ys of
                  Inl e \<Rightarrow> Inl e
                | Inr zs \<Rightarrow> Inr (y # zs)))"

fun Array_sort :: "('a \<Rightarrow> 'a \<Rightarrow> error + int) \<Rightarrow> 'a list \<Rightarrow> error + 'a list" where
  "Array_sort compareFn [] = Inr []"
| "Array_sort compareFn (x # xs) =
     (case Array_sort compareFn xs of
        Inl e \<Rightarrow> Inl e
      | Inr ys \<Rightarrow> insert_sorted compareFn x ys)"

text \<open>
  \<^verbatim>\<open>sortClosestPeers(peers, target)\<close>: pair each peer with the distance of its hashed
  id to the target, sort the pairs with \<^verbatim>\<open>xorCompare\<close>, keep the peers.
\<close>

definition sortClosestPeers :: "(bytes \<Rightarrow> bytes) \<Rightarrow> PeerId list \<Rightarrow> bytes \<Rightarrow> error + PeerId list" where
  "sortClosestPeers digest peers target =
     (case pMap (\<lambda>peer.
              case distance (convertPeerId digest peer) target of
                Inl e \<Rightarrow> Inl e
              | Inr d \<Rightarrow> Inr \<lparr>d_peer = peer, d_distance = d\<rparr>) peers of
        Inl e \<Rightarrow> Inl e
      | Inr distances \<Rightarrow>
          (case Array_sort xorCompare distances of
             Inl e \<Rightarrow> Inl e
           | Inr ordered \<Rightarrow> Inr (map d_peer ordered)))"

text \<open>
  The XOR distance of two identifiers as the specification reads it: the bytewise XOR
  as an unsigned integer, most significant byte first.
\<close>

fun be_nat :: "bytes \<Rightarrow> nat" where
  "be_nat [] = 0"
| "be_nat (b # bs) = unat b * 256 ^ length bs + be_nat bs"

definition xor_distance :: "bytes \<Rightarrow> bytes \<Rightarrow> nat" where
  "xor_distance a b = be_nat (map2 (XOR) a b)"

section \<open>Messages, state and collaborators\<close>

type_synonym Multiaddr = bytes

text \<open>\<^verbatim>\<open>{ id, multiaddrs }\<close>: an entry of \<^verbatim>\<open>closerPeers\<close> and the result of \<^verbatim>\<open>findPeer\<close>.\<close>

record PeerInfo =
  peer_id :: PeerId
  multiaddrs :: "Multiaddr list"

text \<open>What \<^verbatim>\<open>peerStore.get\<close> returns: \<^verbatim>\<open>{ id, addresses: [{ multiaddr }] }\<close>.\<close>

record Address =
  multiaddr :: Multiaddr

record PeerData =
  pd_id :: PeerId
  addresses :: "Address list"

text \<open>
  Modelled from the spec: the message class (\<^verbatim>\<open>message/index.js\<close> is not among the
  sources). Section 4.E gives the types and the fields of a message; a closer peer is
  read as \<^verbatim>\<open>{ id, multiaddrs }\<close>, as \<^verbatim>\<open>peer-routing/index.js\<close> uses it, and of a
  record only the key and the value matter here.
\<close>

datatype MessageType = PUT_VALUE | GET_VALUE | ADD_PROVIDER | GET_PROVIDERS | FIND_NODE | PING

record DHTRecord =
  rec_key :: bytes
  rec_value :: "bytes option"

record Message =
  msg_type :: MessageType
  msg_key :: bytes
  clusterLevel :: nat
  msg_record :: "DHTRecord option"
  closerPeers :: "PeerInfo list"
  providerPeers :: "PeerInfo list"

text \<open>
  Modelled from the spec: the constructor \<^verbatim>\<open>new Message(type, key, level)\<close> of the
  message class, which is not among the sources; a new message has no record and no
  peers.
\<close>

definition new_Message :: "MessageType \<Rightarrow> bytes \<Rightarrow> nat \<Rightarrow> Message" where
  "new_Message t k level =
     \<lparr>msg_type = t, msg_key = k, clusterLevel = level, msg_record = None,
      closerPeers = [], providerPeers = []\<rparr>"

text \<open>
  Modelled from the spec: the results of the query engine (\<^verbatim>\<open>query/index.js\<close> is not
  among the sources). Section 4.G has \<^verbatim>\<open>run\<close> return \<^verbatim>\<open>{ paths, finalSet }\<close>, a
  path's result carry \<^verbatim>\<open>success\<close> and, for a winning peer, \<^verbatim>\<open>peer\<close>, and a step of
  a query function be \<^verbatim>\<open>{ closerPeers }\<close>, \<^verbatim>\<open>{ peer, queryComplete: true }\<close> or
  \<^verbatim>\<open>{ closerPeers, pathComplete: true }\<close>. A field that an object does not have is
  \<open>None\<close>; a path's result is the step with \<^verbatim>\<open>success\<close> added.
\<close>

record PathStep =
  step_peer :: "PeerInfo option"
  queryComplete :: "bool option"
  step_closerPeers :: "PeerInfo list option"
  pathComplete :: "bool option"

record PathResult = PathStep +
  success :: bool

record RunResult =
  paths :: "PathResult list"
  finalSet :: "PeerId list option"

text \<open>
  The state that the operations read and change: the peer store (of any type \<open>'ps\<close>) and
  the requests handed to the network so far, oldest first.
\<close>

record 'ps dht_state =
  peerStore :: 'ps
  sent :: "(PeerId \<times> Message) list"

type_synonym ('ps, 'a) action = "'ps dht_state \<Rightarrow> (error + 'a) \<times> 'ps dht_state"

type_synonym 'ps queryFunc = "PeerId \<Rightarrow> ('ps, PathStep) action"

text \<open>
  The \<^verbatim>\<open>dht\<close> object: its constants and the collaborators that are not part of
  \<^verbatim>\<open>peer-routing/index.js\<close> and \<^verbatim>\<open>utils.js\<close>, each as a function that the theorems
  leave arbitrary.
  \<^item> \<open>isSelf\<close>: \<^verbatim>\<open>dht._isSelf(other)\<close>;
  \<^item> \<open>routingTable_find\<close>, \<open>routingTable_closestPeers\<close>: the routing table's lookups;
  \<^item> \<open>peerStore_get\<close>, \<open>addressBook_add\<close>: the peer store of libp2p;
  \<^item> \<open>network_reply\<close>: what \<^verbatim>\<open>network.sendRequest(peer, msg)\<close> resolves or rejects with;
  \<^item> \<open>dht_get\<close>: the value operation \<^verbatim>\<open>dht.get(key)\<close>;
  \<^item> \<open>unmarshalPublicKey\<close>, \<open>pubKey_digest\<close>: libp2p-crypto's key decoding and the
    multihash of a public key, from which peer-id computes the identifier;
  \<^item> \<open>query_run\<close>: \<^verbatim>\<open>new Query(dht, key, () => queryFunc).run(peers)\<close>, with the time in
    milliseconds after which the promise settles and what it settles with.
    \<^verbatim>\<open>query.stop()\<close> only halts the engine and has no part in the model.
\<close>

record 'ps DHT =
  peerId :: PeerId
  kBucketSize :: nat
  isSelf :: "PeerId \<Rightarrow> bool"
  sha2_256 :: "bytes \<Rightarrow> bytes"
  routingTable_find :: "PeerId \<Rightarrow> PeerId option"
  routingTable_closestPeers :: "bytes \<Rightarrow> nat \<Rightarrow> PeerId list"
  peerStore_get :: "'ps \<Rightarrow> PeerId \<Rightarrow> PeerData option"
  addressBook_add :: "'ps \<Rightarrow> PeerId \<Rightarrow> Multiaddr list \<Rightarrow> 'ps"
  network_reply :: "'ps dht_state \<Rightarrow> PeerId \<Rightarrow> Message \<Rightarrow> error + Message"
  dht_get :: "bytes \<Rightarrow> ('ps, bytes) action"
  unmarshalPublicKey :: "bytes \<Rightarrow> error + pubkey"
  pubKey_digest :: "pubkey \<Rightarrow> bytes"
  query_run :: "bytes \<Rightarrow> 'ps queryFunc \<Rightarrow> PeerId list \<Rightarrow> 'ps dht_state
    \<Rightarrow> (nat \<times> (error + RunResult option)) \<times> 'ps dht_state"

text \<open>
  Modelled from the spec: \<^verbatim>\<open>dht.network.sendRequest(peer, msg)\<close> of \<^verbatim>\<open>network.js\<close>,
  which is not among the sources. Section 4.F: the request is written to a stream to the
  peer and one response is read. The state records the request; the peer's reply, or
  the failure, is the parameter \<open>network_reply\<close>.
\<close>

definition sendRequest :: "'ps DHT \<Rightarrow> PeerId \<Rightarrow> Message \<Rightarrow> ('ps, Message) action" where
  "sendRequest dht peer msg s =
     (network_reply dht s peer msg, s\<lparr>sent := sent s @ [(peer, msg)]\<rparr>)"

text \<open>
  A promise, with what it settles with. A promise is not a peer id: it has no method
  \<^verbatim>\<open>isEqual\<close>, so that calling \<^verbatim>\<open>promise.isEqual(other)\<close> raises \<^verbatim>\<open>TypeError\<close>, and
  no property \<^verbatim>\<open>pubKey\<close>, so that reading it gives \<^verbatim>\<open>undefined\<close>.
\<close>

datatype 'a Promise = Promise "error + 'a"

definition Promise_isEqual :: "'a Promise \<Rightarrow> PeerId \<Rightarrow> error + bool" where
  "Promise_isEqual promise other = Inl TypeError"

definition Promise_pubKey :: "'a Promise \<Rightarrow> pubkey option" where
  "Promise_pubKey promise = None"

text \<open>
  \<^verbatim>\<open>PeerId.createFromPubKey(bytes)\<close> of the peer-id package, version 0.13: an async
  function. It returns a promise, which settles with the peer id computed from the
  digest of the unmarshalled key, carrying the key, or with the error of the
  unmarshalling.
\<close>

definition createFromPubKey :: "'ps DHT \<Rightarrow> bytes \<Rightarrow> PeerId Promise" where
  "createFromPubKey dht key_bytes =
     Promise (case unmarshalPublicKey dht key_bytes of
                Inl e \<Rightarrow> Inl e
              | Inr pk \<Rightarrow> Inr (new_PeerId (pubKey_digest dht pk) None (Some pk)))"

text \<open>
  \<^verbatim>\<open>pTimeout(promise, ms)\<close> of the p-timeout package: the promise's own outcome when
  it settles before \<open>ms\<close> milliseconds have passed, a rejection with the package's
  \<^verbatim>\<open>TimeoutError\<close> otherwise. A promise is the time after which it settles and its
  outcome.
\<close>

definition pTimeout :: "nat \<times> (error + 'a) \<Rightarrow> nat \<Rightarrow> error + 'a" where
  "pTimeout promise ms =
     (case promise of (elapsed, outcome) \<Rightarrow> if elapsed < ms then outcome else Inl TimeoutError)"

text \<open>
  Modelled from the spec: \<^verbatim>\<open>c.minute\<close> of \<^verbatim>\<open>constants.js\<close>, which is not among the
  sources. Section 6 has the query timeout default to 60 s, and the documentation of
  \<^verbatim>\<open>findPeer\<close> gives the default in milliseconds, 60000.
\<close>

definition minute :: nat where
  "minute = 60000"

section \<open>peer-routing\<close>

text \<open>
  \<^verbatim>\<open>findPeerLocal(peer)\<close>: \<^verbatim>\<open>p = routingTable.find(peer)\<close>,
  \<^verbatim>\<open>peerData = p && peerStore.get(p)\<close>; the id and addresses when \<^verbatim>\<open>peerData\<close> is
  there, \<^verbatim>\<open>undefined\<close> otherwise.
\<close>

definition findPeerLocal :: "'ps DHT \<Rightarrow> PeerId \<Rightarrow> 'ps dht_state \<Rightarrow> PeerInfo option" where
  "findPeerLocal dht peer s =
     (case routingTable_find dht peer of
        None \<Rightarrow> None
      | Some p \<Rightarrow>
          (case peerStore_get dht (peerStore s) p of
             None \<Rightarrow> None
           | Some peerData \<Rightarrow>
               Some \<lparr>peer_id = pd_id peerData,
                     multiaddrs = map multiaddr (addresses peerData)\<rparr>))"

definition getValueSingle :: "'ps DHT \<Rightarrow> PeerId \<Rightarrow> bytes \<Rightarrow> ('ps, Message) action" where
  "getValueSingle dht peer key s = sendRequest dht peer (new_Message GET_VALUE key 0) s"

definition findPeerSingle :: "'ps DHT \<Rightarrow> PeerId \<Rightarrow> PeerId \<Rightarrow> ('ps, Message) action" where
  "findPeerSingle dht peer target s =
     sendRequest dht peer (new_Message FIND_NODE (id_buf target) 0) s"

text \<open>
  \<^verbatim>\<open>closerPeersSingle(key, peer)\<close>: the reply's closer peers without the node itself,
  each added to the address book.
\<close>

definition closerPeersSingle :: "'ps DHT \<Rightarrow> bytes \<Rightarrow> PeerId \<Rightarrow> ('ps, PeerInfo list) action" where
  "closerPeersSingle dht key peer s =
     (case findPeerSingle dht peer (new_PeerId key None None) s of
        (Inl e, s1) \<Rightarrow> (Inl e, s1)
      | (Inr msg, s1) \<Rightarrow>
          (let kept = filter (\<lambda>peerData. \<not> isSelf dht (peer_id peerData)) (closerPeers msg)
           in (Inr kept,
               foldl (\<lambda>st peerData. st\<lparr>peerStore :=
                        addressBook_add dht (peerStore st) (peer_id peerData) (multiaddrs peerData)\<rparr>)
                 s1 kept)))"

text \<open>
  \<^verbatim>\<open>getPublicKeyFromNode(peer)\<close>: ask the peer for the record under its public-key key
  and throw when the reply has no record value; line 80 gives \<^verbatim>\<open>errcode\<close> a string.
  Then \<^verbatim>\<open>const recPeer = PeerId.createFromPubKey(msg.record.value)\<close>, without
  \<^verbatim>\<open>await\<close>: \<open>recPeer\<close> is the promise, and line 86 calls \<^verbatim>\<open>recPeer.isEqual(peer)\<close>
  on it. What the promise settles with is never looked at. The lines after that are
  written as the source has them.
\<close>

definition getPublicKeyFromNode :: "'ps DHT \<Rightarrow> PeerId \<Rightarrow> ('ps, pubkey option) action" where
  "getPublicKeyFromNode dht peer s =
     (let pkKey = keyForPublicKey peer in
      case getValueSingle dht peer pkKey s of
        (Inl e, s1) \<Rightarrow> (Inl e, s1)
      | (Inr msg, s1) \<Rightarrow>
          (case (case msg_record msg of None \<Rightarrow> None | Some r \<Rightarrow> rec_value r) of
             None \<Rightarrow>
               (Inl (errcode (Plain_string ''Node not responding with its public key'')
                       ERR_INVALID_RECORD), s1)
           | Some v \<Rightarrow>
               (let recPeer = createFromPubKey dht v in
                case Promise_isEqual recPeer peer of
                  Inl e \<Rightarrow> (Inl e, s1)
                | Inr equal \<Rightarrow>
                    if \<not> equal
                    then (Inl (errcode (Plain_string ''public key does not match id'')
                                 ERR_PUBLIC_KEY_DOES_NOT_MATCH_ID), s1)
                    else (Inr (Promise_pubKey recPeer), s1))))"

text \<open>
  The query function that \<^verbatim>\<open>findPeer\<close> gives to each path: ask the peer with
  \<^verbatim>\<open>_findPeerSingle\<close>, look for the target among the closer peers of the reply.
\<close>

definition findPeer_queryFunc :: "'ps DHT \<Rightarrow> PeerId \<Rightarrow> 'ps queryFunc" where
  "findPeer_queryFunc dht i peer s =
     (case findPeerSingle dht peer i s of
        (Inl e, s1) \<Rightarrow> (Inl e, s1)
      | (Inr msg, s1) \<Rightarrow>
          (case find (\<lambda>p. isEqual (peer_id p) i) (closerPeers msg) of
             Some match \<Rightarrow>
               (Inr \<lparr>step_peer = Some match, queryComplete = Some True,
                     step_closerPeers = None, pathComplete = None\<rparr>, s1)
           | None \<Rightarrow>
               (Inr \<lparr>step_peer = None, queryComplete = None,
                     step_closerPeers = Some (closerPeers msg), pathComplete = None\<rparr>, s1)))"

text \<open>
  The \<^verbatim>\<open>forEach\<close> over \<^verbatim>\<open>result.paths\<close> in \<^verbatim>\<open>findPeer\<close>: a path with
  \<^verbatim>\<open>success\<close> sets the flag and has its peer added to the address book; reading
  \<^verbatim>\<open>result.peer.id\<close> of a path without a peer raises.
\<close>

fun findPeer_paths :: "'ps DHT \<Rightarrow> PathResult list \<Rightarrow> bool \<Rightarrow> ('ps, bool) action" where
  "findPeer_paths dht [] found s = (Inr found, s)"
| "findPeer_paths dht (result # rest) found s =
     (if success result then
        (case step_peer result of
           None \<Rightarrow> (Inl TypeError, s)
         | Some p \<Rightarrow>
             findPeer_paths dht rest True
               (s\<lparr>peerStore := addressBook_add dht (peerStore s) (peer_id p) (multiaddrs p)\<rparr>))
      else findPeer_paths dht rest found s)"

text \<open>
  \<^verbatim>\<open>findPeer\<close> from \<^verbatim>\<open>// query the network\<close> on: run the query under the timeout,
  rethrow its error, collect the paths, fail with \<^verbatim>\<open>ERR_NOT_FOUND\<close> when none
  succeeded, and read the peer from the peer store.
\<close>

definition findPeer_queryNetwork ::
  "'ps DHT \<Rightarrow> PeerId \<Rightarrow> nat \<Rightarrow> PeerId list \<Rightarrow> ('ps, PeerInfo) action" where
  "findPeer_queryNetwork dht i timeout peers s =
     (case query_run dht (id_buf i) (findPeer_queryFunc dht i) peers s of
        (promise, s1) \<Rightarrow>
          (case pTimeout promise timeout of
             Inl err \<Rightarrow> (Inl err, s1)
           | Inr None \<Rightarrow> (Inl TypeError, s1)
           | Inr (Some result) \<Rightarrow>
               (case findPeer_paths dht (paths result) False s1 of
                  (Inl err, s2) \<Rightarrow> (Inl err, s2)
                | (Inr found, s2) \<Rightarrow>
                    if \<not> found then (Inl ERR_NOT_FOUND, s2)
                    else
                      (case peerStore_get dht (peerStore s2) i of
                         None \<Rightarrow> (Inl TypeError, s2)
                       | Some peerData \<Rightarrow>
                           (Inr \<lparr>peer_id = pd_id peerData,
                                 multiaddrs = map multiaddr (addresses peerData)\<rparr>, s2)))))"

text \<open>
  \<^verbatim>\<open>findPeer\<close> after the local attempt: seed from the routing table, fail when there is
  no seed, answer from the peer store when the target is among the seeds and known there,
  query the network otherwise.
\<close>

definition findPeer_seeded :: "'ps DHT \<Rightarrow> PeerId \<Rightarrow> nat \<Rightarrow> ('ps, PeerInfo) action" where
  "findPeer_seeded dht i timeout s =
     (let key = convertPeerId (sha2_256 dht) i;
          peers = routingTable_closestPeers dht key (kBucketSize dht)
      in if length peers = 0 then (Inl ERR_LOOKUP_FAILED, s)
         else
           (case (case find (\<lambda>p. isEqual p i) peers of
                    None \<Rightarrow> None
                  | Some match \<Rightarrow> peerStore_get dht (peerStore s) i) of
              Some peer \<Rightarrow>
                (Inr \<lparr>peer_id = pd_id peer, multiaddrs = map multiaddr (addresses peer)\<rparr>, s)
            | None \<Rightarrow> findPeer_queryNetwork dht i timeout peers s))"

text \<open>
  \<^verbatim>\<open>findPeer(id, options)\<close>; \<open>options_timeout\<close> is \<^verbatim>\<open>options.timeout\<close>, \<open>None\<close>
  when the caller gave none. \<^verbatim>\<open>options.timeout || c.minute\<close> also replaces a zero.
\<close>

definition findPeer :: "'ps DHT \<Rightarrow> PeerId \<Rightarrow> nat option \<Rightarrow> ('ps, PeerInfo) action" where
  "findPeer dht i options_timeout s =
     (let timeout = (case options_timeout of
                       None \<Rightarrow> minute
                     | Some t \<Rightarrow> if t = 0 then minute else t)
      in case findPeerLocal dht i s of
           Some info \<Rightarrow> (Inr info, s)
         | None \<Rightarrow> findPeer_seeded dht i timeout s)"

text \<open>
  \<^verbatim>\<open>getPublicKey(peer)\<close>: the peer store's copy when it has one; else the key from the
  node itself and, when that throws, from \<^verbatim>\<open>dht.get\<close>; then the peer-store entry gets
  the key.
\<close>

definition getPublicKey :: "'ps DHT \<Rightarrow> PeerId \<Rightarrow> ('ps, pubkey option) action" where
  "getPublicKey dht peer s =
     (let peerData = peerStore_get dht (peerStore s) peer in
      case (case peerData of None \<Rightarrow> None | Some d \<Rightarrow> pubKey (pd_id d)) of
        Some localKey \<Rightarrow> (Inr (Some localKey), s)
      | None \<Rightarrow>
          (case (case getPublicKeyFromNode dht peer s of
                   (Inr k, s1) \<Rightarrow> (Inr k, s1)
                 | (Inl err, s1) \<Rightarrow>
                     (let pkKey = keyForPublicKey peer in
                      case dht_get dht pkKey s1 of
                        (Inl e, s2) \<Rightarrow> (Inl e, s2)
                      | (Inr v, s2) \<Rightarrow>
                          (case unmarshalPublicKey dht v of
                             Inl e \<Rightarrow> (Inl e, s2)
                           | Inr k \<Rightarrow> (Inr (Some k), s2)))) of
             (Inl e, s3) \<Rightarrow> (Inl e, s3)
           | (Inr pk, s3) \<Rightarrow>
               (case peerData of
                  None \<Rightarrow> (Inl TypeError, s3)
                | Some d \<Rightarrow>
                    (let d' = d\<lparr>pd_id := new_PeerId (id_buf peer) None pk\<rparr>;
                         addrs = map multiaddr (addresses d')
                     in (Inr pk,
                         s3\<lparr>peerStore := addressBook_add dht (peerStore s3) (pd_id d') addrs\<rparr>)))))"

text \<open>
  The query function that \<^verbatim>\<open>getClosestPeers\<close> gives to each path;
  \<^verbatim>\<open>pathComplete\<close> is \<^verbatim>\<open>options.shallow ? true : undefined\<close>.
\<close>

definition getClosestPeers_queryFunc :: "'ps DHT \<Rightarrow> bytes \<Rightarrow> bool \<Rightarrow> 'ps queryFunc" where
  "getClosestPeers_queryFunc dht key shallow peer s =
     (case closerPeersSingle dht key peer s of
        (Inl e, s1) \<Rightarrow> (Inl e, s1)
      | (Inr closer, s1) \<Rightarrow>
          (Inr \<lparr>step_peer = None, queryComplete = None, step_closerPeers = Some closer,
                pathComplete = (if shallow then Some True else None)\<rparr>, s1))"

text \<open>
  \<^verbatim>\<open>getClosestPeers(key, options)\<close>; the result is the list of the peer ids that the
  generator yields. The run is awaited without a timeout. Nothing is yielded when the
  result or its \<^verbatim>\<open>finalSet\<close> is missing.
\<close>

definition getClosestPeers :: "'ps DHT \<Rightarrow> bytes \<Rightarrow> bool \<Rightarrow> ('ps, PeerId list) action" where
  "getClosestPeers dht key shallow s =
     (let i = convertBuffer (sha2_256 dht) key;
          tablePeers = routingTable_closestPeers dht i (kBucketSize dht)
      in case query_run dht key (getClosestPeers_queryFunc dht key shallow) tablePeers s of
           ((elapsed, Inl e), s1) \<Rightarrow> (Inl e, s1)
         | ((elapsed, Inr None), s1) \<Rightarrow> (Inr [], s1)
         | ((elapsed, Inr (Some res)), s1) \<Rightarrow>
             (case finalSet res of
                None \<Rightarrow> (Inr [], s1)
              | Some final \<Rightarrow>
                  (case sortClosestPeers (sha2_256 dht) final i of
                     Inl e \<Rightarrow> (Inl e, s1)
                   | Inr ordered \<Rightarrow> (Inr (take (kBucketSize dht) ordered), s1))))"

section \<open>A small network\<close>

text \<open>
  An instance of the collaborators, on which the operations can be run: the peer store
  is an association list, the routing table a list of peers that is returned as it is,
  the digest pads or cuts to 32 bytes, a public key is its own digest, and the query
  engine asks the seed peers one after the other until a step completes the query or
  the path. The replies of the network, the outcome of \<^verbatim>\<open>dht.get\<close> and the time that a
  query takes are given.
\<close>

text \<open>The peer store: the newest entry for an id is the one that counts.\<close>

type_synonym store = "(bytes \<times> PeerData) list"

definition store_get :: "store \<Rightarrow> PeerId \<Rightarrow> PeerData option" where
  "store_get st p = map_of st (id_buf p)"

definition store_add :: "store \<Rightarrow> PeerId \<Rightarrow> Multiaddr list \<Rightarrow> store" where
  "store_add st p addrs =
     (id_buf p, \<lparr>pd_id = p, addresses = map (\<lambda>a. \<lparr>multiaddr = a\<rparr>) addrs\<rparr>) # st"

text \<open>
  The engine: one path, the seeds in their order, a failed peer skipped, closer peers
  not followed; the step that completes the query or the path is the path's result.
\<close>

fun ask_in_turn :: "'ps queryFunc \<Rightarrow> PeerId list \<Rightarrow> 'ps dht_state
    \<Rightarrow> PathResult list \<times> 'ps dht_state" where
  "ask_in_turn queryFunc [] s = ([], s)"
| "ask_in_turn queryFunc (p # ps) s =
     (case queryFunc p s of
        (Inl e, s1) \<Rightarrow> ask_in_turn queryFunc ps s1
      | (Inr step, s1) \<Rightarrow>
          if queryComplete step = Some True \<or> pathComplete step = Some True
          then ([\<lparr>step_peer = step_peer step, queryComplete = queryComplete step,
                  step_closerPeers = step_closerPeers step, pathComplete = pathComplete step,
                  success = True\<rparr>], s1)
          else ask_in_turn queryFunc ps s1)"

text \<open>The digest: the first 32 bytes, zeros added when there are fewer.\<close>

definition pad32 :: "bytes \<Rightarrow> bytes" where
  "pad32 b = take 32 (b @ replicate 32 0)"

definition sample_dht ::
  "PeerId list \<Rightarrow> (PeerId \<Rightarrow> Message \<Rightarrow> error + Message) \<Rightarrow> (error + bytes) \<Rightarrow> nat \<Rightarrow> store DHT" where
  "sample_dht table reply stored elapsed =
     \<lparr>peerId = new_PeerId [0] None None,
      kBucketSize = 20,
      isSelf = (\<lambda>other. id_buf other = [0]),
      sha2_256 = pad32,
      routingTable_find = (\<lambda>p. find (\<lambda>q. isEqual q p) table),
      routingTable_closestPeers = (\<lambda>key n. take n table),
      peerStore_get = store_get,
      addressBook_add = store_add,
      network_reply = (\<lambda>s. reply),
      dht_get = (\<lambda>key s. (stored, s)),
      unmarshalPublicKey = Inr,
      pubKey_digest = (\<lambda>pk. pk),
      query_run = (\<lambda>key queryFunc peers s.
        case ask_in_turn queryFunc peers s of
          (ps, s1) \<Rightarrow> ((elapsed, Inr (Some \<lparr>paths = ps, finalSet = Some peers\<rparr>)), s1))\<rparr>"

text \<open>
  Four peers; a network where every peer answers \<open>FIND_NODE\<close> with B and T; a
  network where every peer answers \<open>GET_VALUE\<close> with a record of a given value; a
  state with nothing in it and one where the peer store knows T without a public key.
\<close>

definition peerA :: PeerId where "peerA = new_PeerId [1] None None"
definition peerB :: PeerId where "peerB = new_PeerId [2] None None"
definition peerT :: PeerId where "peerT = new_PeerId [9] None None"

definition knows_T :: "PeerId \<Rightarrow> Message \<Rightarrow> error + Message" where
  "knows_T peer msg =
     (if msg_type msg = FIND_NODE
      then Inr ((new_Message FIND_NODE (msg_key msg) 0)
                 \<lparr>closerPeers := [\<lparr>peer_id = peerB, multiaddrs = []\<rparr>,
                                  \<lparr>peer_id = peerT, multiaddrs = [[4, 5]]\<rparr>]\<rparr>)
      else Inl (Other ''no record''))"

definition empty_state :: "store dht_state" where
  "empty_state = \<lparr>peerStore = [], sent = []\<rparr>"

definition peerC :: PeerId where "peerC = new_PeerId [7] None None"

definition serves_key :: "bytes \<Rightarrow> PeerId \<Rightarrow> Message \<Rightarrow> error + Message" where
  "serves_key v peer msg =
     (if msg_type msg = GET_VALUE
      then Inr ((new_Message GET_VALUE (msg_key msg) 0)
                 \<lparr>msg_record := Some \<lparr>rec_key = msg_key msg, rec_value = Some v\<rparr>\<rparr>)
      else Inl (Other ''not served''))"

definition knows_T_state :: "store dht_state" where
  "knows_T_state =
     \<lparr>peerStore = [([9], \<lparr>pd_id = peerT, addresses = [\<lparr>multiaddr = [4, 5]\<rparr>]\<rparr>)], sent = []\<rparr>"

text \<open>The definitions that a run on the small network unfolds.\<close>

lemmas sample_defs = sample_dht_def peerA_def peerB_def peerT_def knows_T_def empty_state_def
  new_PeerId_def new_Message_def store_get_def store_add_def isEqual_def

lemmas run_defs = findPeer_def findPeerLocal_def findPeer_seeded_def findPeer_queryNetwork_def
  findPeer_queryFunc_def findPeerSingle_def sendRequest_def pTimeout_def convertPeerId_def minute_def

lemmas key_defs = getPublicKey_def getPublicKeyFromNode_def getValueSingle_def sendRequest_def
  createFromPubKey_def Promise_isEqual_def Promise_pubKey_def errcode_def keyForPublicKey_def
  serves_key_def knows_T_state_def

section \<open>Properties of utils\<close>

lemma Buffer_from_pk: "Buffer_from ''/pk/'' = [47, 112, 107, 47]"
  by (simp add: Buffer_from_def)

lemma toString_Buffer_from_pk: "toString (Buffer_from ''/pk/'') = ''/pk/''"
  by (simp add: Buffer_from_pk toString_def char_of_eq_iff)

text \<open>
  C8. Round trip of public-key keys: for every peer id, \<open>keyForPublicKey peer\<close> is
  the four bytes of \<open>/pk/\<close> followed by the peer's identifier bytes, \<open>isPublicKeyKey\<close>
  accepts it, and \<open>fromPublicKeyKey\<close> gives back a peer id with the same identifier bytes.
\<close>

theorem keyForPublicKey_roundtrip:
  "isPublicKeyKey (keyForPublicKey peer)
   \<and> id_buf (fromPublicKeyKey (keyForPublicKey peer)) = id_buf peer
   \<and> keyForPublicKey peer = Buffer_from ''/pk/'' @ id_buf peer"
proof -
  have len: "length (Buffer_from ''/pk/'') = 4"
    by (simp add: Buffer_from_def)
  have key: "keyForPublicKey peer = Buffer_from ''/pk/'' @ id_buf peer"
    by (simp add: keyForPublicKey_def)
  have "take 4 (keyForPublicKey peer) = Buffer_from ''/pk/''"
    using len by (simp add: key)
  then have "isPublicKeyKey (keyForPublicKey peer)"
    by (simp add: isPublicKeyKey_def toString_Buffer_from_pk)
  moreover have "drop 4 (keyForPublicKey peer) = id_buf peer"
    using len by (simp add: key)
  then have "id_buf (fromPublicKeyKey (keyForPublicKey peer)) = id_buf peer"
    by (simp add: fromPublicKeyKey_def new_PeerId_def)
  ultimately show ?thesis using key by simp
qed

lemma round_half_even_le:
  assumes "x \<le> of_int K"
  shows "round_half_even x \<le> K"
proof (cases "x = of_int K")
  case True
  then show ?thesis by (simp add: round_half_even_def)
next
  case False
  with assms have "x < of_int K" by simp
  then have "\<lfloor>x\<rfloor> < K" by (simp add: floor_less_iff)
  then have "\<lfloor>x\<rfloor> + 1 \<le> K" by simp
  then show ?thesis by (simp add: round_half_even_def Let_def)
qed

lemma round_half_even_gt:
  assumes "of_int K + 1 / 2 < x"
  shows "K < round_half_even x"
proof -
  have "of_int K \<le> x" using assms by simp
  then have f: "K \<le> \<lfloor>x\<rfloor>" by (simp add: le_floor_iff)
  show ?thesis
  proof (cases "K = \<lfloor>x\<rfloor>")
    case True
    with assms have "1 / 2 < x - of_int \<lfloor>x\<rfloor>" by simp
    then show ?thesis using True by (simp add: round_half_even_def Let_def)
  next
    case False
    with f have "K < \<lfloor>x\<rfloor>" by simp
    then show ?thesis by (simp add: round_half_even_def Let_def)
  qed
qed

lemma bitlen_powi:
  assumes "0 < a"
  shows "(2::rat) powi (bitlen a - 1) \<le> of_int a" and "of_int a < (2::rat) powi bitlen a"
proof -
  from bitlen_bounds [OF assms]
  have lo: "2 ^ nat (bitlen a - 1) \<le> a" and hi: "a < 2 ^ nat (bitlen a)" by simp_all
  have pos: "1 \<le> bitlen a"
    using assms bitlen_eq_zero_iff [of a] bitlen_nonneg [of a] by linarith
  have "(of_int (2 ^ nat (bitlen a - 1)) :: rat) \<le> of_int a"
    using lo by (simp only: of_int_le_iff)
  then show "(2::rat) powi (bitlen a - 1) \<le> of_int a"
    using pos by (simp add: power_int_nonneg_exp)
  have "(of_int a :: rat) < of_int (2 ^ nat (bitlen a))"
    using hi by (simp only: of_int_less_iff)
  then show "of_int a < (2::rat) powi bitlen a"
    using pos by (simp add: power_int_nonneg_exp)
qed

lemma powi_two_add: "(2::rat) powi m * 2 powi n = 2 powi (m + n)"
  by (simp add: power_int_add)

lemma quotient_range:
  assumes "0 < a" and "0 < b"
  shows "(2::rat) powi (bitlen a - bitlen b - 1) < of_int a / of_int b"
    and "of_int a / of_int b < (2::rat) powi (bitlen a - bitlen b + 1)"
proof -
  let ?A = "of_int a :: rat" and ?B = "of_int b :: rat"
  let ?d = "bitlen a - bitlen b"
  have B: "0 < ?B" using assms(2) by simp
  have "2 powi (?d - 1) * ?B < 2 powi (?d - 1) * 2 powi bitlen b"
    using bitlen_powi(2) [OF assms(2)] by simp
  also have "\<dots> = 2 powi (bitlen a - 1)"
    by (simp add: powi_two_add)
  also have "\<dots> \<le> ?A" by (rule bitlen_powi(1) [OF assms(1)])
  finally show "2 powi (?d - 1) < ?A / ?B"
    using B by (simp add: pos_less_divide_eq)
  have "?A < 2 powi bitlen a" by (rule bitlen_powi(2) [OF assms(1)])
  also have "\<dots> = 2 powi (?d + 1) * 2 powi (bitlen b - 1)"
    by (simp add: powi_two_add)
  also have "\<dots> \<le> 2 powi (?d + 1) * ?B"
    using bitlen_powi(1) [OF assms(2)] by simp
  finally show "?A / ?B < 2 powi (?d + 1)"
    using B by (simp add: pos_divide_less_eq)
qed

lemma normal_range:
  fixes a b :: int
  defines "d \<equiv> bitlen a - bitlen b"
  defines "e \<equiv> (if of_int a < of_int b * (2::rat) powi d then d - 53 else d - 52)"
  assumes "0 < a" and "0 < b"
  shows "2 ^ 52 \<le> of_int a / of_int b / (2::rat) powi e"
    and "of_int a / of_int b / (2::rat) powi e < 2 ^ 53"
proof -
  let ?q = "of_int a / of_int b :: rat"
  have B: "0 < (of_int b :: rat)" using assms by simp
  have lo: "2 powi (d - 1) < ?q" and hi: "?q < 2 powi (d + 1)"
    unfolding d_def using quotient_range [OF assms(3,4)] by simp_all
  have p52: "(2::rat) ^ 52 = 2 powi 52" and p53: "(2::rat) ^ 53 = 2 powi 53" by simp_all
  have scale: "\<And>k y. (2 powi k \<le> y / 2 powi e) = ((2::rat) powi (k + e) \<le> y)"
    "\<And>k y. (y / 2 powi e < 2 powi k) = (y < (2::rat) powi (k + e))"
    by (simp_all add: pos_le_divide_eq pos_divide_less_eq powi_two_add)
  show "2 ^ 52 \<le> ?q / 2 powi e"
  proof (cases "of_int a < of_int b * (2::rat) powi d")
    case True
    then have eq: "52 + e = d - 1" by (simp add: e_def)
    have "2 powi (52 + e) \<le> ?q" unfolding eq using lo by (rule less_imp_le)
    then show ?thesis unfolding p52 scale .
  next
    case False
    then have q: "2 powi d \<le> ?q" using B by (simp add: pos_le_divide_eq mult.commute)
    have eq: "52 + e = d" using False by (simp add: e_def)
    have "2 powi (52 + e) \<le> ?q" unfolding eq by (rule q)
    then show ?thesis unfolding p52 scale .
  qed
  show "?q / 2 powi e < 2 ^ 53"
  proof (cases "of_int a < of_int b * (2::rat) powi d")
    case True
    then have q: "?q < 2 powi d" using B by (simp add: pos_divide_less_eq mult.commute)
    have eq: "53 + e = d" using True by (simp add: e_def)
    have "?q < 2 powi (53 + e)" unfolding eq by (rule q)
    then show ?thesis unfolding p53 scale .
  next
    case False
    then have eq: "53 + e = d + 1" by (simp add: e_def)
    have "?q < 2 powi (53 + e)" unfolding eq by (rule hi)
    then show ?thesis unfolding p53 scale .
  qed
qed

lemma double_quotient_ceiling:
  assumes r: "1 \<le> r" "r < 2 ^ 53" and n: "1 \<le> n" "n < 2 ^ 1024"
  shows "\<lceil>double_quotient r n\<rceil> = \<lceil>of_int r / of_int n :: rat\<rceil>"
proof -
  let ?R = "of_int r :: rat" and ?N = "of_int n :: rat"
  define q where "q = ?R / ?N"
  define d where "d = bitlen r - bitlen n"
  define e0 where "e0 = (if ?R < ?N * (2::rat) powi d then d - 53 else d - 52)"
  define e where "e = max e0 (- 1074)"
  define P where "P = (2::int) ^ nat (- e)"
  define c where "c = \<lceil>q\<rceil>"
  define T where "T = (2::rat) powi 52"
  have T: "0 < T" by (simp add: T_def)
  have T53: "(2::rat) ^ 53 = 2 * T" "(2::rat) powi 53 = 2 * T" and T52: "(2::rat) ^ 52 = T"
    by (simp_all add: T_def)
  have N: "0 < ?N" "1 \<le> ?N" using n by simp_all
  have R: "?R < 2 * T"
  proof -
    have "?R < of_int (2 ^ 53)" using r(2) by (simp only: of_int_less_iff)
    then have "?R < 2 ^ 53" by simp
    then show ?thesis by (simp only: T53)
  qed
  have e: "double_exponent r n = e"
    by (simp add: double_exponent_def e_def e0_def d_def Let_def)
  have norm: "T \<le> q / 2 powi e0"
    unfolding q_def e0_def d_def T52 [symmetric] using normal_range(1) [of r n] r(1) n(1) by simp
  have "q \<le> ?R" using N r(1) by (simp add: q_def pos_divide_le_eq mult_le_cancel_left1)
  with R have q53: "q < 2 powi 53" by (simp only: T53)
  have "T * 2 powi e0 \<le> q"
    using norm by (simp only: pos_le_divide_eq zero_less_power_int zero_less_numeral)
  then have "2 powi (52 + e0) \<le> q"
    by (simp only: T_def powi_two_add)
  then have lt: "(2::rat) powi (52 + e0) < 2 powi 53" using q53 by (rule le_less_trans)
  have e0: "e0 \<le> 0"
  proof (rule ccontr)
    assume "\<not> e0 \<le> 0"
    then have "53 \<le> 52 + e0" by simp
    then have "(2::rat) powi 53 \<le> 2 powi (52 + e0)"
      by (rule power_int_increasing) simp
    with lt have "(2::rat) powi (52 + e0) < 2 powi (52 + e0)" by (rule less_le_trans)
    then show False by (simp only: less_irrefl)
  qed
  then have e0': "e \<le> 0" by (simp add: e_def)
  have P: "0 < P" by (simp add: P_def)
  have powP: "(2::rat) powi e = 1 / of_int P"
  proof -
    have "e = - int (nat (- e))" using e0' by simp
    then have "(2::rat) powi e = 2 powi (- int (nat (- e)))" by simp
    also have "\<dots> = 1 / 2 ^ nat (- e)"
      by (simp only: power_int_minus_divide power_int_of_nat)
    finally show ?thesis by (simp add: P_def)
  qed
  have x: "q / 2 powi e = q * of_int P" by (simp add: powP)
  have fl: "double_quotient r n = of_int (round_half_even (q * of_int P)) / of_int P"
    unfolding double_quotient_def e Let_def q_def [symmetric] x by (simp add: powP)
  have n2P: "n < 2 * P"
  proof (cases "e = e0")
    case True
    have "T \<le> q * of_int P" using norm x True by simp
    then have "T * ?N \<le> ?R * of_int P"
      using N by (simp add: q_def pos_le_divide_eq)
    also have "\<dots> < (2 * T) * of_int P"
      using R P by (simp only: mult_strict_right_mono of_int_0_less_iff)
    finally have "T * ?N < T * (2 * of_int P)" by (simp only: mult_ac)
    then have "?N < 2 * (of_int P :: rat)" using T by (simp only: mult_less_cancel_left_pos)
    then have "?N < of_int (2 * P)" by simp
    then show ?thesis by (simp only: of_int_less_iff)
  next
    case False
    then have "e = - 1074" by (simp add: e_def max_def split: if_splits)
    then have "P = 2 ^ 1074" by (simp add: P_def)
    with n(2) show ?thesis by simp
  qed
  have up: "q \<le> of_int c" by (simp add: c_def)
  have low: "of_int c - 1 < q" unfolding c_def by linarith
  have "q * of_int P \<le> of_int c * of_int P"
    using up P by (simp add: mult_right_mono)
  then have "q * of_int P \<le> of_int (c * P)" by simp
  then have "round_half_even (q * of_int P) \<le> c * P"
    by (rule round_half_even_le)
  then have "(of_int (round_half_even (q * of_int P)) :: rat) \<le> of_int (c * P)"
    by (simp only: of_int_le_iff)
  then have upper: "double_quotient r n \<le> of_int c"
    using P by (simp add: fl pos_divide_le_eq)
  have "of_int (c - 1) * ?N < ?R"
    using low N by (simp add: q_def pos_less_divide_eq)
  then have "(of_int ((c - 1) * n) :: rat) < of_int r" by simp
  then have "(c - 1) * n < r" by (simp only: of_int_less_iff)
  then have "(c - 1) * n + 1 \<le> r" by simp
  then have "(of_int ((c - 1) * n + 1) :: rat) \<le> of_int r" by (simp only: of_int_le_iff)
  then have "of_int (c - 1) * ?N + 1 \<le> ?R" by simp
  then have "(of_int (c - 1) * ?N + 1) / ?N \<le> q"
    using N by (simp add: q_def divide_le_cancel)
  then have step: "of_int (c - 1) + 1 / ?N \<le> q"
    using N by (simp add: add_divide_distrib)
  have "?N < of_int (2 * P)" using n2P by (simp only: of_int_less_iff)
  then have "?N < 2 * of_int P" by simp
  then have half: "1 / 2 < of_int P / ?N"
    using N by (simp add: pos_less_divide_eq)
  have "of_int ((c - 1) * P) + 1 / 2 < (of_int (c - 1) + 1 / ?N) * of_int P"
    using half by (simp add: algebra_simps)
  also have "\<dots> \<le> q * of_int P"
    using step P by (simp add: mult_right_mono)
  finally have "(c - 1) * P < round_half_even (q * of_int P)"
    by (rule round_half_even_gt)
  then have "(of_int ((c - 1) * P) :: rat) < of_int (round_half_even (q * of_int P))"
    by (simp only: of_int_less_iff)
  then have "of_int (c - 1) * of_int P < (of_int (round_half_even (q * of_int P)) :: rat)"
    by simp
  then have lower: "of_int c - 1 < double_quotient r n"
    using P by (simp add: fl pos_less_divide_eq)
  have "\<lceil>double_quotient r n\<rceil> = c"
    using lower upper by (rule ceiling_unique)
  then show ?thesis by (simp add: c_def q_def)
qed

text \<open>
  C10, amended. For integers \<open>1 \<le> resultsWanted < 2 ^ 53\<close> and \<open>numPaths \<ge> 1\<close>,
  \<open>numPaths\<close> a double, \<open>pathSize\<close> is the ceiling of the exact quotient, that is
  the least integer \<open>p\<close> with \<open>resultsWanted \<le> p * numPaths\<close>; so it is at least 1
  and \<open>pathSize * numPaths\<close> covers \<open>resultsWanted\<close>.
\<close>

theorem pathSize_ceiling:
  assumes "1 \<le> resultsWanted" and "resultsWanted < 2 ^ 53"
    and "1 \<le> numPaths" and "double_int numPaths"
  shows "\<exists>p. pathSize resultsWanted numPaths = Some p
    \<and> p = \<lceil>rat_of_int resultsWanted / rat_of_int numPaths\<rceil>
    \<and> p = (resultsWanted + numPaths - 1) div numPaths
    \<and> 1 \<le> p
    \<and> resultsWanted \<le> p * numPaths
    \<and> (p - 1) * numPaths < resultsWanted"
proof -
  define q where "q = rat_of_int resultsWanted / rat_of_int numPaths"
  define p where "p = \<lceil>q\<rceil>"
  have n: "0 < rat_of_int numPaths" using assms(3) by simp
  have big: "numPaths < 2 ^ 1024" using assms(3,4) by (simp add: double_int_def)
  have "double_div resultsWanted numPaths = Some (double_quotient resultsWanted numPaths)"
    using assms(1,3) by (simp add: double_div_def)
  then have val: "pathSize resultsWanted numPaths = Some p"
    using double_quotient_ceiling [OF assms(1-3) big]
    by (simp add: pathSize_def Math_ceil_def p_def q_def)
  have "0 < q" using assms n by (simp add: q_def)
  then have pos: "1 \<le> p" unfolding p_def by linarith
  have "q \<le> rat_of_int p" unfolding p_def by (rule le_of_int_ceiling)
  then have "rat_of_int resultsWanted \<le> rat_of_int p * rat_of_int numPaths"
    using n by (simp add: q_def pos_divide_le_eq)
  then have "rat_of_int resultsWanted \<le> rat_of_int (p * numPaths)" by simp
  then have up: "resultsWanted \<le> p * numPaths" by (simp only: of_int_le_iff)
  have "rat_of_int p - 1 < q" unfolding p_def by linarith
  then have "(rat_of_int p - 1) * rat_of_int numPaths < rat_of_int resultsWanted"
    using n by (simp add: q_def pos_less_divide_eq)
  then have "rat_of_int ((p - 1) * numPaths) < rat_of_int resultsWanted" by simp
  then have low: "(p - 1) * numPaths < resultsWanted" by (simp only: of_int_less_iff)
  have "(resultsWanted + numPaths - 1) div numPaths = p"
  proof (rule int_div_pos_eq [where r = "resultsWanted + numPaths - 1 - p * numPaths"])
    show "resultsWanted + numPaths - 1 =
      numPaths * p + (resultsWanted + numPaths - 1 - p * numPaths)"
      by (simp add: algebra_simps)
    show "0 \<le> resultsWanted + numPaths - 1 - p * numPaths"
      using low by (simp add: algebra_simps)
    show "resultsWanted + numPaths - 1 - p * numPaths < numPaths"
      using up by simp
  qed
  with val pos up low show ?thesis by (simp add: p_def q_def)
qed

text \<open>C10 at 20 results on 3 paths.\<close>

theorem pathSize_ceiling_witness:
  "(1::int) \<le> 20 \<and> (20::int) < 2 ^ 53 \<and> (1::int) \<le> 3 \<and> double_int 3
   \<and> pathSize 20 3 = Some 7 \<and> (20::int) \<le> 7 * 3 \<and> (7 - 1) * 3 < (20::int)"
proof -
  have d: "double_int 3" by code_simp
  from pathSize_ceiling [of 20 3, OF _ _ _ d] d show ?thesis by auto
qed

text \<open>
  C10 as stated fails: \<open>2 ^ 55 + 24\<close> and 3 are doubles, the double nearest to their
  quotient is the even integer below it, and three times \<open>pathSize\<close> is less than
  \<open>resultsWanted\<close>.
\<close>

theorem pathSize_double_counterexample:
  "double_int (2 ^ 55 + 24) \<and> double_int 3
   \<and> pathSize (2 ^ 55 + 24) 3 = Some 12009599006321330
   \<and> \<lceil>rat_of_int (2 ^ 55 + 24) / rat_of_int 3\<rceil> = 12009599006321331
   \<and> 12009599006321330 * 3 < (2 ^ 55 + 24 :: int)"
  by code_simp

section \<open>Properties of peer routing\<close>

lemma find_isEqual_Some:
  "find (\<lambda>p. isEqual (peer_id p) i) xs = Some m \<Longrightarrow> m \<in> set xs \<and> id_buf (peer_id m) = id_buf i"
  by (induction xs) (auto simp: isEqual_def split: if_splits)

lemma find_isEqual_None:
  "(find (\<lambda>p. isEqual (peer_id p) i) xs = None) = (\<forall>p\<in>set xs. id_buf (peer_id p) \<noteq> id_buf i)"
  by (induction xs) (auto simp: isEqual_def)

text \<open>
  C2. The query function of \<open>findPeer\<close>, asked about a peer that replies: exactly one
  request goes out, a \<open>FIND_NODE\<close> message with the target's id as key; when a closer
  peer of the reply has the target's id, the result is the first such peer with
  \<open>queryComplete\<close> true; when none has, the result is the reply's closer peers and
  no \<open>queryComplete\<close>.
\<close>

theorem findPeer_queryFunc_step:
  assumes reply: "network_reply dht s peer (new_Message FIND_NODE (id_buf i) 0) = Inr msg"
  shows "snd (findPeer_queryFunc dht i peer s)
           = s\<lparr>sent := sent s @ [(peer, new_Message FIND_NODE (id_buf i) 0)]\<rparr>
    \<and> ((\<exists>p\<in>set (closerPeers msg). id_buf (peer_id p) = id_buf i) \<longrightarrow>
         (\<exists>m\<in>set (closerPeers msg). id_buf (peer_id m) = id_buf i
            \<and> find (\<lambda>p. isEqual (peer_id p) i) (closerPeers msg) = Some m
            \<and> fst (findPeer_queryFunc dht i peer s)
                = Inr \<lparr>step_peer = Some m, queryComplete = Some True,
                       step_closerPeers = None, pathComplete = None\<rparr>))
    \<and> ((\<forall>p\<in>set (closerPeers msg). id_buf (peer_id p) \<noteq> id_buf i) \<longrightarrow>
         fst (findPeer_queryFunc dht i peer s)
           = Inr \<lparr>step_peer = None, queryComplete = None,
                  step_closerPeers = Some (closerPeers msg), pathComplete = None\<rparr>)"
proof (cases "find (\<lambda>p. isEqual (peer_id p) i) (closerPeers msg)")
  case None
  then have "\<forall>p\<in>set (closerPeers msg). id_buf (peer_id p) \<noteq> id_buf i"
    by (simp add: find_isEqual_None)
  with None reply show ?thesis
    by (simp add: findPeer_queryFunc_def findPeerSingle_def sendRequest_def)
next
  case (Some m)
  then have "m \<in> set (closerPeers msg) \<and> id_buf (peer_id m) = id_buf i"
    by (rule find_isEqual_Some)
  with Some reply show ?thesis
    by (auto simp add: findPeer_queryFunc_def findPeerSingle_def sendRequest_def)
qed

text \<open>
  C5. When the target is not found locally and the routing table has no closest peer for
  its hashed id, \<open>findPeer\<close> fails with \<open>ERR_LOOKUP_FAILED\<close> and the state is
  the one it started from: no request was sent and the peer store is unchanged,
  whatever the query engine and the network would do.
\<close>

theorem findPeer_lookup_failed:
  assumes "findPeerLocal dht i s = None"
    and "routingTable_closestPeers dht (sha2_256 dht (id_buf i)) (kBucketSize dht) = []"
  shows "findPeer dht i options_timeout s = (Inl ERR_LOOKUP_FAILED, s)"
  using assms by (simp add: findPeer_def findPeer_seeded_def convertPeerId_def)



lemma findPeer_paths_no_success:
  "\<forall>r\<in>set ps. \<not> success r \<Longrightarrow> findPeer_paths dht ps found s = (Inr found, s)"
  by (induction ps arbitrary: found s) auto

lemma findPeer_paths_True:
  "findPeer_paths dht ps found s = (Inr True, s') \<Longrightarrow> found \<or> (\<exists>r\<in>set ps. success r)"
  by (induction ps arbitrary: found s) (auto split: if_splits option.splits)

lemma findPeer_queryNetwork_outcome:
  assumes run: "query_run dht (id_buf i) (findPeer_queryFunc dht i) peers s = ((elapsed, outcome), s1)"
  shows "(timeout \<le> elapsed \<longrightarrow>
            findPeer_queryNetwork dht i timeout peers s = (Inl TimeoutError, s1))
    \<and> (\<forall>err. elapsed < timeout \<and> outcome = Inl err \<longrightarrow>
            findPeer_queryNetwork dht i timeout peers s = (Inl err, s1))
    \<and> (\<forall>result. elapsed < timeout \<and> outcome = Inr (Some result)
            \<and> (\<forall>r\<in>set (paths result). \<not> success r) \<longrightarrow>
            findPeer_queryNetwork dht i timeout peers s = (Inl ERR_NOT_FOUND, s1))
    \<and> (\<forall>info s2. findPeer_queryNetwork dht i timeout peers s = (Inr info, s2) \<longrightarrow>
            elapsed < timeout
            \<and> (\<exists>result. outcome = Inr (Some result) \<and> (\<exists>r\<in>set (paths result). success r)))"
proof (intro conjI allI impI)
  assume "timeout \<le> elapsed"
  then show "findPeer_queryNetwork dht i timeout peers s = (Inl TimeoutError, s1)"
    using run by (simp add: findPeer_queryNetwork_def pTimeout_def)
next
  fix err assume "elapsed < timeout \<and> outcome = Inl err"
  then show "findPeer_queryNetwork dht i timeout peers s = (Inl err, s1)"
    using run by (simp add: findPeer_queryNetwork_def pTimeout_def)
next
  fix result
  assume a: "elapsed < timeout \<and> outcome = Inr (Some result)
            \<and> (\<forall>r\<in>set (paths result). \<not> success r)"
  then have "findPeer_paths dht (paths result) False s1 = (Inr False, s1)"
    by (simp add: findPeer_paths_no_success)
  then show "findPeer_queryNetwork dht i timeout peers s = (Inl ERR_NOT_FOUND, s1)"
    using run a by (simp add: findPeer_queryNetwork_def pTimeout_def)
next
  fix info s2
  assume ret: "findPeer_queryNetwork dht i timeout peers s = (Inr info, s2)"
  show "elapsed < timeout"
  proof (rule ccontr)
    assume "\<not> elapsed < timeout"
    then have "findPeer_queryNetwork dht i timeout peers s = (Inl TimeoutError, s1)"
      using run by (simp add: findPeer_queryNetwork_def pTimeout_def)
    with ret show False by simp
  qed
  then have pt: "pTimeout (elapsed, outcome) timeout = outcome"
    by (simp add: pTimeout_def)
  from ret run pt obtain result where res: "outcome = Inr (Some result)"
    by (cases outcome) (auto simp: findPeer_queryNetwork_def split: option.splits)
  obtain r' s' where fp: "findPeer_paths dht (paths result) False s1 = (r', s')"
    by (cases "findPeer_paths dht (paths result) False s1") auto
  with ret run pt res have "r' = Inr True"
    by (cases r') (auto simp: findPeer_queryNetwork_def split: if_splits)
  with fp have "\<exists>r\<in>set (paths result). success r"
    using findPeer_paths_True by fastforce
  with res show "\<exists>result. outcome = Inr (Some result) \<and> (\<exists>r\<in>set (paths result). success r)"
    by blast
qed

text \<open>C2 on the small network: peer A knows B and T; asked for T it completes, asked for A it does not.\<close>

theorem findPeer_queryFunc_step_witness:
  "network_reply (sample_dht [peerA] knows_T (Inl ERR_NOT_FOUND) 10) empty_state peerA
       (new_Message FIND_NODE (id_buf peerT) 0)
     = Inr ((new_Message FIND_NODE (id_buf peerT) 0)
                 \<lparr>closerPeers := [\<lparr>peer_id = peerB, multiaddrs = []\<rparr>,
                                  \<lparr>peer_id = peerT, multiaddrs = [[4, 5]]\<rparr>]\<rparr>)
   \<and> fst (findPeer_queryFunc (sample_dht [peerA] knows_T (Inl ERR_NOT_FOUND) 10) peerT peerA empty_state)
     = Inr \<lparr>step_peer = Some \<lparr>peer_id = peerT, multiaddrs = [[4, 5]]\<rparr>, queryComplete = Some True,
            step_closerPeers = None, pathComplete = None\<rparr>
   \<and> fst (findPeer_queryFunc (sample_dht [peerA] knows_T (Inl ERR_NOT_FOUND) 10) peerA peerA empty_state)
     = Inr \<lparr>step_peer = None, queryComplete = None,
            step_closerPeers = Some [\<lparr>peer_id = peerB, multiaddrs = []\<rparr>,
                                  \<lparr>peer_id = peerT, multiaddrs = [[4, 5]]\<rparr>], pathComplete = None\<rparr>"
proof -
  let ?d = "sample_dht [peerA] knows_T (Inl ERR_NOT_FOUND) 10"
  let ?cp = "[\<lparr>peer_id = peerB, multiaddrs = []\<rparr>, \<lparr>peer_id = peerT, multiaddrs = [[4, 5]]\<rparr>]"
  have r1: "network_reply ?d empty_state peerA (new_Message FIND_NODE (id_buf peerT) 0)
     = Inr ((new_Message FIND_NODE (id_buf peerT) 0)\<lparr>closerPeers := ?cp\<rparr>)"
    by (simp add: sample_defs)
  have r2: "network_reply ?d empty_state peerA (new_Message FIND_NODE (id_buf peerA) 0)
     = Inr ((new_Message FIND_NODE (id_buf peerA) 0)\<lparr>closerPeers := ?cp\<rparr>)"
    by (simp add: sample_defs)
  have m: "\<exists>p\<in>set ?cp. id_buf (peer_id p) = id_buf peerT"
    by (simp add: sample_defs)
  have n: "\<forall>p\<in>set ?cp. id_buf (peer_id p) \<noteq> id_buf peerA"
    by (simp add: sample_defs)
  from findPeer_queryFunc_step [OF r1] m
  have "fst (findPeer_queryFunc ?d peerT peerA empty_state)
     = Inr \<lparr>step_peer = Some \<lparr>peer_id = peerT, multiaddrs = [[4, 5]]\<rparr>, queryComplete = Some True,
            step_closerPeers = None, pathComplete = None\<rparr>"
    by (auto simp: sample_defs)
  moreover from findPeer_queryFunc_step [OF r2] n
  have "fst (findPeer_queryFunc ?d peerA peerA empty_state)
     = Inr \<lparr>step_peer = None, queryComplete = None, step_closerPeers = Some ?cp, pathComplete = None\<rparr>"
    by (simp add: new_Message_def)
  ultimately show ?thesis using r1 by simp
qed

text \<open>C5 on the small network with an empty routing table.\<close>

theorem findPeer_lookup_failed_witness:
  "findPeerLocal (sample_dht [] knows_T (Inl ERR_NOT_FOUND) 10) peerT empty_state = None
   \<and> routingTable_closestPeers (sample_dht [] knows_T (Inl ERR_NOT_FOUND) 10)
        (sha2_256 (sample_dht [] knows_T (Inl ERR_NOT_FOUND) 10) (id_buf peerT))
        (kBucketSize (sample_dht [] knows_T (Inl ERR_NOT_FOUND) 10)) = []
   \<and> findPeer (sample_dht [] knows_T (Inl ERR_NOT_FOUND) 10) peerT None empty_state
       = (Inl ERR_LOOKUP_FAILED, empty_state)"
proof -
  let ?d = "sample_dht [] knows_T (Inl ERR_NOT_FOUND) 10"
  have a: "findPeerLocal ?d peerT empty_state = None"
    by (simp add: findPeerLocal_def sample_dht_def)
  have b: "routingTable_closestPeers ?d (sha2_256 ?d (id_buf peerT)) (kBucketSize ?d) = []"
    by (simp add: sample_dht_def)
  from findPeer_lookup_failed [OF a b] a b show ?thesis by simp
qed

lemma findPeer_reaches_network:
  assumes "findPeerLocal dht i s = None"
    and "routingTable_closestPeers dht (convertPeerId (sha2_256 dht) i) (kBucketSize dht) = peers"
    and "peers \<noteq> []"
    and "find (\<lambda>p. isEqual p i) peers = None \<or> peerStore_get dht (peerStore s) i = None"
    and "timeout = (case options_timeout of None \<Rightarrow> minute | Some t \<Rightarrow> if t = 0 then minute else t)"
  shows "findPeer dht i options_timeout s = findPeer_queryNetwork dht i timeout peers s"
  using assms by (auto simp: findPeer_def findPeer_seeded_def split: option.splits)

text \<open>
  C3, amended. A call of \<open>findPeer\<close> reaches the network query when the local attempt
  fails, there are seeds, and the target is not both among the seeds and in the peer
  store. Then: when the timeout fires, \<open>findPeer\<close> fails with the \<open>TimeoutError\<close>
  of \<open>pTimeout\<close>; an error of the run is rethrown as it is; when the run completes in
  time and no path has \<open>success\<close>, \<open>findPeer\<close> fails with \<open>ERR_NOT_FOUND\<close>; and
  \<open>findPeer\<close> returns a peer only when the run completed in time and a path has
  \<open>success\<close>.
\<close>

theorem findPeer_network_outcome:
  assumes "findPeerLocal dht i s = None"
    and "routingTable_closestPeers dht (convertPeerId (sha2_256 dht) i) (kBucketSize dht) = peers"
    and "peers \<noteq> []"
    and "find (\<lambda>p. isEqual p i) peers = None \<or> peerStore_get dht (peerStore s) i = None"
    and "timeout = (case options_timeout of None \<Rightarrow> minute | Some t \<Rightarrow> if t = 0 then minute else t)"
    and "query_run dht (id_buf i) (findPeer_queryFunc dht i) peers s = ((elapsed, outcome), s1)"
  shows "(timeout \<le> elapsed \<longrightarrow>
            findPeer dht i options_timeout s = (Inl TimeoutError, s1))
    \<and> (\<forall>err. elapsed < timeout \<and> outcome = Inl err \<longrightarrow>
            findPeer dht i options_timeout s = (Inl err, s1))
    \<and> (\<forall>result. elapsed < timeout \<and> outcome = Inr (Some result)
            \<and> (\<forall>r\<in>set (paths result). \<not> success r) \<longrightarrow>
            findPeer dht i options_timeout s = (Inl ERR_NOT_FOUND, s1))
    \<and> (\<forall>info s2. findPeer dht i options_timeout s = (Inr info, s2) \<longrightarrow>
            elapsed < timeout
            \<and> (\<exists>result. outcome = Inr (Some result) \<and> (\<exists>r\<in>set (paths result). success r)))"
  unfolding findPeer_reaches_network [OF assms(1-5)]
  by (rule findPeer_queryNetwork_outcome [OF assms(6)])


text \<open>
  C3 as stated fails: a query for a peer that nobody knows takes 700 ms under a timeout
  of 500 ms; \<open>findPeer\<close> fails with \<open>TimeoutError\<close>, not with \<open>ERR_NOT_FOUND\<close>.
\<close>

theorem findPeer_timeout_counterexample:
  "fst (query_run (sample_dht [peerA] knows_T (Inl ERR_NOT_FOUND) 700) (id_buf peerC)
          (findPeer_queryFunc (sample_dht [peerA] knows_T (Inl ERR_NOT_FOUND) 700) peerC)
          [peerA] empty_state)
     = (700, Inr (Some \<lparr>paths = [], finalSet = Some [peerA]\<rparr>))
   \<and> fst (findPeer (sample_dht [peerA] knows_T (Inl ERR_NOT_FOUND) 700) peerC (Some 500) empty_state)
     = Inl TimeoutError
   \<and> fst (findPeer (sample_dht [peerA] knows_T (Inl ERR_NOT_FOUND) 700) peerC (Some 500) empty_state)
     \<noteq> Inl ERR_NOT_FOUND"
  by (simp add: run_defs sample_defs peerC_def)

text \<open>C3 on the small network: a timeout, a query without success, and a query that finds T.\<close>

theorem findPeer_network_outcome_witness:
  "fst (findPeer (sample_dht [peerA] knows_T (Inl ERR_NOT_FOUND) 700) peerT (Some 500) empty_state)
     = Inl TimeoutError
   \<and> fst (findPeer (sample_dht [peerA] knows_T (Inl ERR_NOT_FOUND) 10) peerA (Some 500) empty_state)
     = Inl ERR_NOT_FOUND
   \<and> fst (findPeer (sample_dht [peerA] knows_T (Inl ERR_NOT_FOUND) 10) peerT None empty_state)
     = Inr \<lparr>peer_id = peerT, multiaddrs = [[4, 5]]\<rparr>"
proof -
  let ?slow = "sample_dht [peerA] knows_T (Inl ERR_NOT_FOUND) 700"
  let ?fast = "sample_dht [peerA] knows_T (Inl ERR_NOT_FOUND) 10"
  let ?sA = "empty_state\<lparr>sent := [(peerA, new_Message FIND_NODE (id_buf peerA) 0)]\<rparr>"
  let ?sT = "empty_state\<lparr>sent := [(peerA, new_Message FIND_NODE (id_buf peerT) 0)]\<rparr>"
  let ?step = "\<lparr>step_peer = Some \<lparr>peer_id = peerT, multiaddrs = [[4, 5]]\<rparr>,
      queryComplete = Some True, step_closerPeers = None, pathComplete = None, success = True\<rparr>"
  have slow: "query_run ?slow (id_buf peerT) (findPeer_queryFunc ?slow peerT) [peerA] empty_state
      = ((700, Inr (Some \<lparr>paths = [?step], finalSet = Some [peerA]\<rparr>)), ?sT)"
    by (simp add: run_defs sample_defs)
  have none: "query_run ?fast (id_buf peerA) (findPeer_queryFunc ?fast peerA) [peerA] empty_state
      = ((10, Inr (Some \<lparr>paths = [], finalSet = Some [peerA]\<rparr>)), ?sA)"
    by (simp add: run_defs sample_defs)
  have fast: "query_run ?fast (id_buf peerT) (findPeer_queryFunc ?fast peerT) [peerA] empty_state
      = ((10, Inr (Some \<lparr>paths = [?step], finalSet = Some [peerA]\<rparr>)), ?sT)"
    by (simp add: run_defs sample_defs)
  have t1: "fst (findPeer ?slow peerT (Some 500) empty_state) = Inl TimeoutError"
    using findPeer_network_outcome [where dht = ?slow and i = peerT and s = empty_state
        and peers = "[peerA]" and timeout = 500 and options_timeout = "Some 500", OF _ _ _ _ _ slow]
    by (simp add: findPeerLocal_def convertPeerId_def sample_defs)
  have t2: "fst (findPeer ?fast peerA (Some 500) empty_state) = Inl ERR_NOT_FOUND"
    using findPeer_network_outcome [where dht = ?fast and i = peerA and s = empty_state
        and peers = "[peerA]" and timeout = 500 and options_timeout = "Some 500", OF _ _ _ _ _ none]
    by (simp add: findPeerLocal_def convertPeerId_def sample_defs)
  have t3: "fst (findPeer ?fast peerT None empty_state) = Inr \<lparr>peer_id = peerT, multiaddrs = [[4, 5]]\<rparr>"
    using findPeer_network_outcome [where dht = ?fast and i = peerT and s = empty_state
        and peers = "[peerA]" and timeout = minute and options_timeout = None, OF _ _ _ _ _ fast]
    by (simp add: run_defs sample_defs)
  from t1 t2 t3 show ?thesis by simp
qed

lemma getPublicKeyFromNode_never_returns:
  "\<exists>e s1. getPublicKeyFromNode dht peer s = (Inl e, s1)
     \<and> (e = TypeError
          \<or> network_reply dht s peer (new_Message GET_VALUE (keyForPublicKey peer) 0) = Inl e)"
  by (auto simp: getPublicKeyFromNode_def getValueSingle_def sendRequest_def Promise_isEqual_def
      errcode_def Let_def split: sum.splits option.splits)

text \<open>
  C9. When the peer store has no entry for the peer, \<open>getPublicKey\<close> ends in an
  error: once a key has been fetched, from the node or from \<open>dht.get\<close>, writing
  \<open>peerData.id\<close> raises \<open>TypeError\<close>. So it returns a key only for peers in the peer
  store.
\<close>

theorem getPublicKey_needs_peerStore_entry:
  assumes "peerStore_get dht (peerStore s) peer = None"
  shows "(\<exists>e. fst (getPublicKey dht peer s) = Inl e)
    \<and> (\<forall>k s1. getPublicKeyFromNode dht peer s = (Inr k, s1) \<longrightarrow>
          getPublicKey dht peer s = (Inl TypeError, s1))
    \<and> (\<forall>err s1 v s2 k. getPublicKeyFromNode dht peer s = (Inl err, s1)
          \<and> dht_get dht (keyForPublicKey peer) s1 = (Inr v, s2)
          \<and> unmarshalPublicKey dht v = Inr k \<longrightarrow>
          getPublicKey dht peer s = (Inl TypeError, s2))"
  using assms
  by (auto simp: getPublicKey_def Let_def split: sum.splits option.splits prod.splits)


text \<open>
  C9 on the small network: the peer store is empty, the direct fetch from T throws, and
  \<open>dht.get\<close> has T's key.
\<close>

theorem getPublicKey_needs_peerStore_entry_witness:
  "peerStore_get (sample_dht [peerT] (serves_key [9]) (Inr [9]) 10)
      (peerStore empty_state) peerT = None
   \<and> fst (getPublicKeyFromNode (sample_dht [peerT] (serves_key [9]) (Inr [9]) 10)
          peerT empty_state) = Inl TypeError
   \<and> fst (getPublicKey (sample_dht [peerT] (serves_key [9]) (Inr [9]) 10)
          peerT empty_state) = Inl TypeError"
proof -
  let ?d = "sample_dht [peerT] (serves_key [9]) (Inr [9]) 10"
  let ?s1 = "empty_state\<lparr>sent := [(peerT, new_Message GET_VALUE (keyForPublicKey peerT) 0)]\<rparr>"
  have a: "peerStore_get ?d (peerStore empty_state) peerT = None"
    by (simp add: sample_defs)
  have n: "getPublicKeyFromNode ?d peerT empty_state = (Inl TypeError, ?s1)"
    by (simp add: key_defs sample_defs)
  have g: "dht_get ?d (keyForPublicKey peerT) ?s1 = (Inr [9], ?s1)"
    by (simp add: sample_defs)
  have u: "unmarshalPublicKey ?d [9] = Inr [9]"
    by (simp add: sample_defs)
  from getPublicKey_needs_peerStore_entry [OF a] n g u
  have "getPublicKey ?d peerT empty_state = (Inl TypeError, ?s1)"
    by blast
  with a n show ?thesis by simp
qed


section \<open>Properties of getClosestPeers\<close>

lemma be_nat_bound: "be_nat xs < 256 ^ length xs"
proof (induction xs)
  case Nil
  then show ?case by simp
next
  case (Cons b bs)
  have "unat b < 256" using unsigned_less [of b] by simp
  then have "unat b + 1 \<le> 256" by simp
  then have "(unat b + 1) * 256 ^ length bs \<le> 256 * 256 ^ length bs"
    by (rule mult_le_mono1)
  moreover have "unat b * 256 ^ length bs + be_nat bs < unat b * 256 ^ length bs + 256 ^ length bs"
    using Cons.IH by (simp only: add_less_cancel_left)
  moreover have "unat b * 256 ^ length bs + 256 ^ length bs = (unat b + 1) * 256 ^ length bs"
    by (simp only: add_mult_distrib mult_1)
  ultimately have "unat b * 256 ^ length bs + be_nat bs < 256 * 256 ^ length bs"
    by (simp only: less_le_trans)
  then show ?case by simp
qed

lemma compare_loop_le:
  "length a = length b \<Longrightarrow> (compare_loop a b \<le> 0) = (be_nat a \<le> be_nat b)"
proof (induction a b rule: list_induct2)
  case Nil
  then show ?case by simp
next
  case (Cons x xs y ys)
  let ?K = "(256::nat) ^ length ys"
  have len: "length xs = length ys" by (rule Cons.hyps)
  have bx: "be_nat xs < ?K" using be_nat_bound [of xs] len by simp
  have by': "be_nat ys < ?K" by (rule be_nat_bound)
  consider (eq) "x = y" | (lt) "x < y" | (gt) "y < x"
    using linorder_cases by blast
  then show ?case
  proof cases
    case eq
    then show ?thesis using Cons.IH len by simp
  next
    case lt
    then have "unat x + 1 \<le> unat y" by (simp add: word_less_nat_alt)
    then have "(unat x + 1) * ?K \<le> unat y * ?K" by (rule mult_le_mono1)
    then have "unat x * ?K + be_nat xs \<le> unat y * ?K + be_nat ys"
      using bx by simp
    moreover have "x \<noteq> y" using lt by simp
    ultimately show ?thesis using lt len by simp
  next
    case gt
    then have "unat y + 1 \<le> unat x" by (simp add: word_less_nat_alt)
    then have "(unat y + 1) * ?K \<le> unat x * ?K" by (rule mult_le_mono1)
    then have "unat y * ?K + be_nat ys < unat x * ?K + be_nat xs"
      using by' by simp
    moreover have "x \<noteq> y" "\<not> x < y" using gt by simp_all
    ultimately show ?thesis using len by simp
  qed
qed

lemma xorCompare_le:
  assumes "length (d_distance a) = length (d_distance b)"
  shows "\<exists>c. xorCompare a b = Inr c
           \<and> (c \<le> 0) = (be_nat (d_distance a) \<le> be_nat (d_distance b))"
  using assms by (simp add: xorCompare_def compare_def compare_loop_le)

lemma insert_sorted_ok:
  assumes "\<forall>a\<in>set (x # ys). length (d_distance a) = n"
  shows "\<exists>zs. insert_sorted xorCompare x ys = Inr zs \<and> mset zs = mset (x # ys)
           \<and> (sorted (map (\<lambda>a. be_nat (d_distance a)) ys)
                \<longrightarrow> sorted (map (\<lambda>a. be_nat (d_distance a)) zs))"
  using assms
proof (induction ys)
  case Nil
  then show ?case by simp
next
  case (Cons y ys)
  let ?k = "\<lambda>a. be_nat (d_distance a)"
  from Cons.prems have "length (d_distance x) = length (d_distance y)" by simp
  then obtain c where c: "xorCompare x y = Inr c" "(c \<le> 0) = (?k x \<le> ?k y)"
    using xorCompare_le by blast
  show ?case
  proof (cases "c \<le> 0")
    case True
    then have "?k x \<le> ?k y" using c by simp
    then show ?thesis using c True by auto
  next
    case False
    then have yx: "?k y \<le> ?k x" using c by simp
    from Cons.prems have "\<forall>a\<in>set (x # ys). length (d_distance a) = n" by simp
    from Cons.IH [OF this] obtain zs where zs: "insert_sorted xorCompare x ys = Inr zs"
      "mset zs = mset (x # ys)"
      "sorted (map ?k ys) \<longrightarrow> sorted (map ?k zs)"
      by blast
    from zs(2) have set: "set zs = set (x # ys)" by (rule mset_eq_setD)
    have "insert_sorted xorCompare x (y # ys) = Inr (y # zs)"
      using c False zs(1) by simp
    moreover have "mset (y # zs) = mset (x # y # ys)"
      using zs(2) by simp
    moreover have "sorted (map ?k (y # ys)) \<longrightarrow> sorted (map ?k (y # zs))"
      using zs(3) set yx by auto
    ultimately show ?thesis by blast
  qed
qed

lemma Array_sort_ok:
  assumes "\<forall>a\<in>set xs. length (d_distance a) = n"
  shows "\<exists>zs. Array_sort xorCompare xs = Inr zs \<and> mset zs = mset xs
           \<and> sorted (map (\<lambda>a. be_nat (d_distance a)) zs)"
  using assms
proof (induction xs)
  case Nil
  then show ?case by simp
next
  case (Cons x xs)
  then obtain ys where ys: "Array_sort xorCompare xs = Inr ys" "mset ys = mset xs"
    "sorted (map (\<lambda>a. be_nat (d_distance a)) ys)"
    by auto
  from ys(2) have "set ys = set xs" by (rule mset_eq_setD)
  with Cons.prems have "\<forall>a\<in>set (x # ys). length (d_distance a) = n" by simp
  from insert_sorted_ok [OF this] ys show ?case by auto
qed

lemma pMap_distance:
  assumes "\<forall>p\<in>set peers. length (digest (id_buf p)) = length target"
  shows "pMap (\<lambda>peer. case distance (convertPeerId digest peer) target of
                Inl e \<Rightarrow> Inl e
              | Inr d \<Rightarrow> Inr \<lparr>d_peer = peer, d_distance = d\<rparr>) peers
         = Inr (map (\<lambda>p. \<lparr>d_peer = p, d_distance = map2 (XOR) (digest (id_buf p)) target\<rparr>) peers)"
  using assms by (induction peers) (simp_all add: distance_def convertPeerId_def)

lemma sortClosestPeers_ok:
  assumes "\<forall>p\<in>set peers. length (digest (id_buf p)) = length target"
  shows "\<exists>ordered. sortClosestPeers digest peers target = Inr ordered
           \<and> mset ordered = mset peers
           \<and> sorted (map (\<lambda>p. xor_distance (digest (id_buf p)) target) ordered)"
proof -
  let ?f = "\<lambda>p. \<lparr>d_peer = p, d_distance = map2 (XOR) (digest (id_buf p)) target\<rparr>"
  let ?ds = "map ?f peers"
  have "\<forall>a\<in>set ?ds. length (d_distance a) = length target"
    using assms by auto
  from Array_sort_ok [OF this] obtain zs where zs: "Array_sort xorCompare ?ds = Inr zs"
    "mset zs = mset ?ds" "sorted (map (\<lambda>a. be_nat (d_distance a)) zs)"
    by blast
  have res: "sortClosestPeers digest peers target = Inr (map d_peer zs)"
    using zs(1) by (simp add: sortClosestPeers_def pMap_distance [OF assms])
  have peers: "map d_peer ?ds = peers"
    by (simp add: comp_def)
  have "mset (map d_peer zs) = image_mset d_peer (mset zs)"
    by (simp only: mset_map)
  also have "\<dots> = image_mset d_peer (mset ?ds)"
    by (simp only: zs(2))
  also have "\<dots> = mset (map d_peer ?ds)"
    by (simp only: mset_map)
  finally have perm: "mset (map d_peer zs) = mset peers"
    by (simp only: peers)
  from zs(2) have "set zs = set ?ds" by (rule mset_eq_setD)
  then have "\<forall>a\<in>set zs. a = ?f (d_peer a)" by auto
  then have "map (\<lambda>a. be_nat (d_distance a)) zs
      = map (\<lambda>p. xor_distance (digest (id_buf p)) target) (map d_peer zs)"
  proof (intro map_cong [OF refl, THEN trans, OF _ map_map [symmetric, unfolded comp_def]])
    fix a assume "a \<in> set zs"
    with \<open>\<forall>a\<in>set zs. a = ?f (d_peer a)\<close> have "a = ?f (d_peer a)" by blast
    then have "d_distance a = map2 (XOR) (digest (id_buf (d_peer a))) target"
      by (metis PeerDistance.select_convs(2))
    then show "be_nat (d_distance a) = xor_distance (digest (id_buf (d_peer a))) target"
      by (simp add: xor_distance_def)
  qed
  with zs(3) have "sorted (map (\<lambda>p. xor_distance (digest (id_buf p)) target) (map d_peer zs))"
    by simp
  with res perm show ?thesis by blast
qed

lemma getClosestPeers_queryFunc_no_winner:
  assumes "getClosestPeers_queryFunc dht key shallow peer s0 = (Inr step, s')"
  shows "queryComplete step = None \<and> step_peer step = None"
  using assms
  by (auto simp: getClosestPeers_queryFunc_def split: prod.splits sum.splits)

text \<open>
  C4. With a digest of 32 bytes: \<open>getClosestPeers\<close> runs the query on the seeds that
  the routing table gives for the hashed key, and when the run resolves with a
  \<open>finalSet\<close>, it yields the first \<open>kBucketSize\<close> peers of a rearrangement of the
  \<open>finalSet\<close> that is in non-decreasing XOR distance of the hashed peer id to the
  hashed key. The query function never returns a \<open>queryComplete\<close> or a winning peer.
\<close>

theorem getClosestPeers_sorted:
  assumes digest: "\<forall>b. length (sha2_256 dht b) = 32"
    and run: "query_run dht key (getClosestPeers_queryFunc dht key shallow)
               (routingTable_closestPeers dht (sha2_256 dht key) (kBucketSize dht)) s
             = ((elapsed, Inr (Some res)), s1)"
    and final: "finalSet res = Some final"
  shows "(\<exists>ordered. getClosestPeers dht key shallow s = (Inr (take (kBucketSize dht) ordered), s1)
            \<and> mset ordered = mset final
            \<and> sorted (map (\<lambda>p. xor_distance (sha2_256 dht (id_buf p)) (sha2_256 dht key)) ordered))
    \<and> (\<forall>peer s0 step s'. getClosestPeers_queryFunc dht key shallow peer s0 = (Inr step, s') \<longrightarrow>
          queryComplete step = None \<and> step_peer step = None)"
proof -
  have "\<forall>p\<in>set final. length (sha2_256 dht (id_buf p)) = length (sha2_256 dht key)"
    using digest by simp
  from sortClosestPeers_ok [OF this] obtain ordered where
    ord: "sortClosestPeers (sha2_256 dht) final (sha2_256 dht key) = Inr ordered"
      "mset ordered = mset final"
      "sorted (map (\<lambda>p. xor_distance (sha2_256 dht (id_buf p)) (sha2_256 dht key)) ordered)"
    by blast
  have "getClosestPeers dht key shallow s = (Inr (take (kBucketSize dht) ordered), s1)"
    using run final ord(1) by (simp add: getClosestPeers_def convertBuffer_def)
  with ord(2,3) show ?thesis
    using getClosestPeers_queryFunc_no_winner by blast
qed

lemma sortClosestPeers_sample: "sortClosestPeers pad32 [peerB, peerA, peerT] (pad32 [1]) = Inr [peerA, peerB, peerT]"
  by code_simp

text \<open>C4 on the small network: the seeds B, A, T come back as A, B, T.\<close>

theorem getClosestPeers_sorted_witness:
  "(\<forall>b. length (sha2_256 (sample_dht [peerB, peerA, peerT] knows_T (Inl ERR_NOT_FOUND) 10) b) = 32)
   \<and> fst (getClosestPeers (sample_dht [peerB, peerA, peerT] knows_T (Inl ERR_NOT_FOUND) 10)
            [1] False empty_state) = Inr [peerA, peerB, peerT]
   \<and> sorted (map (\<lambda>p. xor_distance (pad32 (id_buf p)) (pad32 [1])) [peerA, peerB, peerT])"
proof -
  let ?d = "sample_dht [peerB, peerA, peerT] knows_T (Inl ERR_NOT_FOUND) 10"
  have digest: "\<forall>b. length (sha2_256 ?d b) = 32"
    by (auto simp: sample_dht_def pad32_def)
  have seeds: "routingTable_closestPeers ?d (sha2_256 ?d [1]) (kBucketSize ?d) = [peerB, peerA, peerT]"
    by (simp add: sample_dht_def)
  obtain s1 where run: "query_run ?d [1] (getClosestPeers_queryFunc ?d [1] False)
               (routingTable_closestPeers ?d (sha2_256 ?d [1]) (kBucketSize ?d)) empty_state
             = ((10, Inr (Some \<lparr>paths = [], finalSet = Some [peerB, peerA, peerT]\<rparr>)), s1)"
    unfolding seeds
    by (simp add: sample_defs getClosestPeers_queryFunc_def closerPeersSingle_def findPeerSingle_def
        sendRequest_def)
  have "sortClosestPeers (sha2_256 ?d) [peerB, peerA, peerT] (sha2_256 ?d [1])
      = Inr [peerA, peerB, peerT]"
    using sortClosestPeers_sample by (simp add: sample_dht_def)
  with run have val: "getClosestPeers ?d [1] False empty_state = (Inr [peerA, peerB, peerT], s1)"
    by (simp add: getClosestPeers_def convertBuffer_def seeds) (simp add: sample_dht_def)
  from getClosestPeers_sorted [OF digest run]
  obtain ordered where ord:
    "getClosestPeers ?d [1] False empty_state = (Inr (take (kBucketSize ?d) ordered), s1)"
    "mset ordered = mset [peerB, peerA, peerT]"
    "sorted (map (\<lambda>p. xor_distance (sha2_256 ?d (id_buf p)) (sha2_256 ?d [1])) ordered)"
    by auto
  have "length ordered = 3"
    using ord(2) by (metis length_Cons list.size(3) size_mset numeral_3_eq_3)
  then have "take (kBucketSize ?d) ordered = ordered"
    by (simp add: sample_dht_def)
  with ord(1) val have "ordered = [peerA, peerB, peerT]"
    by simp
  with ord(3) have "sorted (map (\<lambda>p. xor_distance (pad32 (id_buf p)) (pad32 [1])) [peerA, peerB, peerT])"
    by (simp add: sample_dht_def)
  with digest val show ?thesis by simp
qed

section \<open>Properties of the base 32 encoder\<close>

lemma bits_value_append:
  "bits_value (xs @ ys) = bits_value xs * 2 ^ length ys + bits_value ys"
  by (induction xs) (simp_all add: power_add algebra_simps)

lemma length_bits_of: "length (bits_of k n) = k"
  by (induction k arbitrary: n) simp_all

lemma bits_value_bits_of: "bits_value (bits_of k n) = n mod 2 ^ k"
proof (induction k arbitrary: n)
  case 0
  then show ?case by simp
next
  case (Suc k)
  have "n mod (2 * 2 ^ k) = 2 * (n div 2 mod 2 ^ k) + n mod 2"
    by (rule mod_mult2_eq)
  moreover have "of_bool (odd n) = n mod 2"
    by (simp add: mod_2_eq_odd)
  ultimately show ?case
    using Suc.IH [of "n div 2"] by (simp add: bits_value_append)
qed

lemma bits_value_bound: "bits_value xs < 2 ^ length xs"
proof (induction xs)
  case Nil
  then show ?case by simp
next
  case (Cons b bs)
  have "of_bool b * 2 ^ length bs \<le> (2::nat) ^ length bs" by simp
  with Cons.IH show ?case by simp
qed

lemma length_byte_bits: "length (byte_bits b) = 8"
  by (simp add: byte_bits_def length_bits_of)

lemma bits_value_byte_bits: "bits_value (byte_bits b) = unat b"
proof -
  have "unat b < 2 ^ 8" using unsigned_less [of b] by simp
  then show ?thesis by (simp add: byte_bits_def bits_value_bits_of)
qed

lemma bits_value_take:
  "bits_value (take k xs) = bits_value xs div 2 ^ (length xs - k)"
proof -
  have "bits_value xs = bits_value (take k xs) * 2 ^ length (drop k xs) + bits_value (drop k xs)"
    using bits_value_append [of "take k xs" "drop k xs"] by simp
  moreover have "bits_value (drop k xs) < 2 ^ length (drop k xs)"
    by (rule bits_value_bound)
  ultimately show ?thesis by simp
qed

lemma bits_value_drop:
  "bits_value (drop k xs) = bits_value xs mod 2 ^ (length xs - k)"
proof -
  have "bits_value xs = bits_value (take k xs) * 2 ^ length (drop k xs) + bits_value (drop k xs)"
    using bits_value_append [of "take k xs" "drop k xs"] by simp
  moreover have "bits_value (drop k xs) < 2 ^ length (drop k xs)"
    by (rule bits_value_bound)
  ultimately show ?thesis by simp
qed

lemma and_31: "(x::nat) AND 31 = x mod 32"
proof -
  have "x AND mask 5 = take_bit 5 x" by (simp only: take_bit_eq_mask)
  then show ?thesis by (simp add: take_bit_eq_mod mask_eq_exp_minus_1)
qed

lemma or_low_bits:
  fixes m x :: nat
  assumes "x < 2 ^ j"
  shows "m * 2 ^ j OR x = m * 2 ^ j + x"
proof -
  have "push_bit j m AND take_bit j x = 0"
    by (rule bit_eqI) (simp add: bit_simps)
  then have "push_bit j m + take_bit j x = push_bit j m OR take_bit j x"
    by (rule disjunctive_add_eq_or)
  moreover have "take_bit j x = x"
    using assms by (simp add: take_bit_nat_eq_self)
  ultimately show ?thesis
    by (simp add: push_bit_eq_mult)
qed

lemma first_symbol:
  fixes c m x :: nat
  assumes "c AND 31 = m * 2 ^ j" and "x < 2 ^ j" and "j \<le> 5"
  shows "(c OR x) AND 31 = m * 2 ^ j + x"
proof -
  have "(2::nat) ^ j \<le> 2 ^ 5"
    using assms(3) by (rule power_increasing) simp
  with assms(2) have x: "x mod 32 = x" by simp
  have "(c OR x) AND 31 = take_bit 5 (c OR x)"
    by (simp add: and_31 take_bit_eq_mod)
  also have "\<dots> = take_bit 5 c OR take_bit 5 x"
    by (rule take_bit_or)
  also have "\<dots> = (c AND 31) OR x"
    using x by (simp add: and_31 take_bit_eq_mod)
  also have "\<dots> = m * 2 ^ j + x"
    using assms(2) by (simp only: assms(1) or_low_bits)
  finally show ?thesis .
qed

lemma top_bits_small:
  assumes "r \<le> 5" and "v < (256::nat)"
  shows "v div 2 ^ (3 + r) < 2 ^ (5 - r)"
proof -
  have "(2::nat) ^ (5 - r) * 2 ^ (3 + r) = 2 ^ 8"
    using assms(1) by (simp flip: power_add)
  with assms(2) have "v < 2 ^ (5 - r) * 2 ^ (3 + r)" by simp
  then show ?thesis by (rule less_mult_imp_div_less)
qed

lemma shifted_low_bits:
  assumes "j + k = 5"
  shows "push_bit k (v::nat) AND 31 = (v mod 2 ^ j) * 2 ^ k"
proof -
  have "(32::nat) = 2 ^ j * 2 ^ k"
    using assms by (simp flip: power_add)
  then have "(v * 2 ^ k) mod 32 = (v * 2 ^ k) mod (2 ^ j * 2 ^ k)" by simp
  also have "\<dots> = (v mod 2 ^ j) * 2 ^ k" by (rule mod_mult_mult2)
  finally show ?thesis by (simp add: and_31 push_bit_eq_mult)
qed

lemma middle_bits:
  "(v mod 2 ^ (k + 5)) div 2 ^ k = (v div 2 ^ k) mod (32::nat)"
proof -
  have "drop_bit k (take_bit (k + 5) v) = take_bit 5 (drop_bit k v)"
    by (simp add: drop_bit_take_bit)
  then show ?thesis by (simp add: take_bit_eq_mod drop_bit_eq_div)
qed

lemma write_byte_one:
  assumes r: "length p \<le> 2"
    and sh: "shift enc = 3 + length p"
    and ca: "carry enc AND 31 = bits_value p * 2 ^ (5 - length p)"
  shows "write_byte enc b =
      enc\<lparr>buf := buf enc @ [alphabet enc ! bits_value (take 5 (p @ byte_bits b))],
          shift := 3 + length (drop 5 (p @ byte_bits b)),
          carry := push_bit (2 - length p) (unat b)\<rparr>
    \<and> push_bit (2 - length p) (unat b) AND 31
        = bits_value (drop 5 (p @ byte_bits b)) * 2 ^ (5 - length (drop 5 (p @ byte_bits b)))"
proof -
  let ?r = "length p" and ?v = "unat b"
  have v: "?v < 256" using unsigned_less [of b] by simp
  have r5: "?r \<le> 5" using r by simp
  have small: "?v div 2 ^ (3 + ?r) < 2 ^ (5 - ?r)"
    using r5 v by (rule top_bits_small)
  have sym: "(carry enc OR drop_bit (3 + ?r) ?v) AND 31
      = bits_value p * 2 ^ (5 - ?r) + ?v div 2 ^ (3 + ?r)"
    using first_symbol [OF ca small] by (simp add: drop_bit_eq_div)
  have "bits_value (take 5 (p @ byte_bits b))
      = bits_value p * 2 ^ (5 - ?r) + bits_value (take (5 - ?r) (byte_bits b))"
  proof -
    have "min 8 (5 - ?r) = 5 - ?r" by simp
    then show ?thesis
      using r5 by (simp add: bits_value_append length_byte_bits)
  qed
  also have "bits_value (take (5 - ?r) (byte_bits b)) = ?v div 2 ^ (3 + ?r)"
    using r5 by (simp add: bits_value_take length_byte_bits bits_value_byte_bits)
  finally have g1: "bits_value (take 5 (p @ byte_bits b))
      = bits_value p * 2 ^ (5 - ?r) + ?v div 2 ^ (3 + ?r)" .
  have rest: "drop 5 (p @ byte_bits b) = drop (5 - ?r) (byte_bits b)"
    using r5 by simp
  have len: "length (drop 5 (p @ byte_bits b)) = 3 + ?r"
    using r5 by (simp add: rest length_byte_bits)
  have val: "bits_value (drop 5 (p @ byte_bits b)) = ?v mod 2 ^ (3 + ?r)"
    using r5 by (simp add: rest bits_value_drop length_byte_bits bits_value_byte_bits)
  have "(3 + ?r) + (2 - ?r) = 5" using r by simp
  then have c2: "push_bit (2 - ?r) ?v AND 31 = (?v mod 2 ^ (3 + ?r)) * 2 ^ (2 - ?r)"
    by (rule shifted_low_bits)
  define s1 where "s1 = bits_value (take 5 (p @ byte_bits b))"
  define n where "n = length (drop 5 (p @ byte_bits b))"
  have "(carry enc OR drop_bit (3 + ?r) ?v) AND 31 = s1"
    by (simp only: sym g1 s1_def)
  moreover have "n = 3 + ?r"
    by (simp only: n_def len)
  then have "8 - (5 - (3 + ?r)) = 3 + n"
    using r by simp
  moreover have "5 - (3 + ?r) = 2 - ?r" "\<not> 5 < 3 + ?r"
    using r by simp_all
  ultimately have "write_byte enc b =
      enc\<lparr>buf := buf enc @ [alphabet enc ! s1], shift := 3 + n,
          carry := push_bit (2 - length p) (unat b)\<rparr>"
    by (simp add: write_byte_def Let_def sh)
  then have "write_byte enc b =
      enc\<lparr>buf := buf enc @ [alphabet enc ! bits_value (take 5 (p @ byte_bits b))],
          shift := 3 + length (drop 5 (p @ byte_bits b)),
          carry := push_bit (2 - length p) (unat b)\<rparr>"
    by (simp only: s1_def n_def)
  moreover have "push_bit (2 - ?r) ?v AND 31
        = bits_value (drop 5 (p @ byte_bits b)) * 2 ^ (5 - length (drop 5 (p @ byte_bits b)))"
  proof -
    have "5 - (3 + ?r) = 2 - ?r" by simp
    then show ?thesis by (simp only: c2 val len)
  qed
  ultimately show ?thesis by simp
qed

lemma write_byte_two:
  assumes r: "3 \<le> length p" "length p \<le> 5"
    and sh: "shift enc = 3 + length p"
    and ca: "carry enc AND 31 = bits_value p * 2 ^ (5 - length p)"
  shows "write_byte enc b =
      enc\<lparr>buf := buf enc @ [alphabet enc ! bits_value (take 5 (p @ byte_bits b)),
                           alphabet enc ! bits_value (take 5 (drop 5 (p @ byte_bits b)))],
          shift := 3 + length (drop 10 (p @ byte_bits b)),
          carry := push_bit (7 - length p) (unat b)\<rparr>
    \<and> push_bit (7 - length p) (unat b) AND 31
        = bits_value (drop 10 (p @ byte_bits b)) * 2 ^ (5 - length (drop 10 (p @ byte_bits b)))"
proof -
  let ?r = "length p" and ?v = "unat b"
  have v: "?v < 256" using unsigned_less [of b] by simp
  have r5: "?r \<le> 5" using r by simp
  have small: "?v div 2 ^ (3 + ?r) < 2 ^ (5 - ?r)"
    using r5 v by (rule top_bits_small)
  have sym: "(carry enc OR drop_bit (3 + ?r) ?v) AND 31
      = bits_value p * 2 ^ (5 - ?r) + ?v div 2 ^ (3 + ?r)"
    using first_symbol [OF ca small] by (simp add: drop_bit_eq_div)
  have "bits_value (take 5 (p @ byte_bits b))
      = bits_value p * 2 ^ (5 - ?r) + bits_value (take (5 - ?r) (byte_bits b))"
  proof -
    have "min 8 (5 - ?r) = 5 - ?r" by simp
    then show ?thesis
      using r5 by (simp add: bits_value_append length_byte_bits)
  qed
  also have "bits_value (take (5 - ?r) (byte_bits b)) = ?v div 2 ^ (3 + ?r)"
    using r5 by (simp add: bits_value_take length_byte_bits bits_value_byte_bits)
  finally have g1: "bits_value (take 5 (p @ byte_bits b))
      = bits_value p * 2 ^ (5 - ?r) + ?v div 2 ^ (3 + ?r)" .
  have rest: "drop 5 (p @ byte_bits b) = drop (5 - ?r) (byte_bits b)"
    using r5 by simp
  have "bits_value (take 5 (drop 5 (p @ byte_bits b)))
      = (?v mod 2 ^ (3 + ?r)) div 2 ^ (?r - 2)"
    using r by (simp add: rest bits_value_take bits_value_drop length_byte_bits bits_value_byte_bits)
  also have "3 + ?r = (?r - 2) + 5" using r by simp
  finally have g2: "bits_value (take 5 (drop 5 (p @ byte_bits b))) = drop_bit (?r - 2) ?v AND 31"
    by (simp only: middle_bits and_31 drop_bit_eq_div)
  have rest2: "drop 10 (p @ byte_bits b) = drop (10 - ?r) (byte_bits b)"
    using r5 by simp
  have len: "length (drop 10 (p @ byte_bits b)) = ?r - 2"
    using r by (simp add: rest2 length_byte_bits)
  have val: "bits_value (drop 10 (p @ byte_bits b)) = ?v mod 2 ^ (?r - 2)"
    using r by (simp add: rest2 bits_value_drop length_byte_bits bits_value_byte_bits)
  have "(?r - 2) + (7 - ?r) = 5" using r by simp
  then have c2: "push_bit (7 - ?r) ?v AND 31 = (?v mod 2 ^ (?r - 2)) * 2 ^ (7 - ?r)"
    by (rule shifted_low_bits)
  define s1 where "s1 = bits_value (take 5 (p @ byte_bits b))"
  define s2 where "s2 = bits_value (take 5 (drop 5 (p @ byte_bits b)))"
  define n where "n = length (drop 10 (p @ byte_bits b))"
  have "(carry enc OR drop_bit (3 + ?r) ?v) AND 31 = s1"
    by (simp only: sym g1 s1_def)
  moreover have "drop_bit (?r - 2) ?v AND 31 = s2"
    by (simp only: g2 s2_def)
  moreover have "n = ?r - 2"
    by (simp only: n_def len)
  then have "5 - (?r - 2) = 7 - ?r" "8 - (7 - ?r) = 3 + n" "5 < 3 + ?r" "3 + ?r - 5 = ?r - 2"
    using r by simp_all
  ultimately have "write_byte enc b =
      enc\<lparr>buf := buf enc @ [alphabet enc ! s1, alphabet enc ! s2], shift := 3 + n,
          carry := push_bit (7 - length p) (unat b)\<rparr>"
    by (simp add: write_byte_def Let_def sh)
  then have "write_byte enc b =
      enc\<lparr>buf := buf enc @ [alphabet enc ! bits_value (take 5 (p @ byte_bits b)),
                           alphabet enc ! bits_value (take 5 (drop 5 (p @ byte_bits b)))],
          shift := 3 + length (drop 10 (p @ byte_bits b)),
          carry := push_bit (7 - length p) (unat b)\<rparr>"
    by (simp only: s1_def s2_def n_def)
  moreover have "push_bit (7 - ?r) ?v AND 31
        = bits_value (drop 10 (p @ byte_bits b)) * 2 ^ (5 - length (drop 10 (p @ byte_bits b)))"
  proof -
    have "5 - (?r - 2) = 7 - ?r" using r by simp
    then show ?thesis by (simp only: c2 val len)
  qed
  ultimately show ?thesis by simp
qed

lemma split_two_groups: "xs = take 5 xs @ take 5 (drop 5 xs) @ drop 10 xs"
proof -
  have "take 5 (drop 5 xs) @ drop 5 (drop 5 xs) = drop 5 xs"
    by (rule append_take_drop_id)
  then have "take 5 (drop 5 xs) @ drop 10 xs = drop 5 xs"
    by simp
  then show ?thesis by simp
qed

lemma groups5_full: "length g = 5 \<Longrightarrow> groups5 (g @ xs) = g # groups5 xs"
  by (cases g) simp_all

lemma groups5_last:
  "p \<noteq> [] \<Longrightarrow> length p \<le> 5 \<Longrightarrow> groups5 p = [p @ replicate (5 - length p) False]"
proof (cases p)
  case Nil
  then show "p \<noteq> [] \<Longrightarrow> ?thesis" by simp
next
  case (Cons b bs)
  assume "length p \<le> 5"
  then have "min 4 (4 - length bs) = 4 - length bs" "length bs \<le> 4"
    using Cons by simp_all
  then show ?thesis using Cons by simp
qed

lemma bits_value_pad: "bits_value (p @ replicate k False) = bits_value p * 2 ^ k"
proof -
  have "bits_value (replicate k False) = 0" by (induction k) simp_all
  then show ?thesis by (simp add: bits_value_append)
qed

lemma encoder_refines:
  assumes "shift enc = 3 + length p" and "length p \<le> 5"
    and "carry enc AND 31 = bits_value p * 2 ^ (5 - length p)"
  shows "Encoder_finalize (Encoder_write enc bs)
    = buf enc @ map (\<lambda>g. alphabet enc ! bits_value g) (groups5 (p @ concat (map byte_bits bs)))"
  using assms
proof (induction bs arbitrary: enc p)
  case Nil
  show ?case
  proof (cases "p = []")
    case True
    with Nil show ?thesis by (simp add: Encoder_finalize_def Encoder_write_def)
  next
    case False
    with Nil have "groups5 p = [p @ replicate (5 - length p) False]"
      by (simp add: groups5_last)
    moreover have "shift enc \<noteq> 3" using False Nil by simp
    ultimately show ?thesis
      using Nil by (simp add: Encoder_finalize_def Encoder_write_def bits_value_pad)
  qed
next
  case (Cons b bs)
  let ?B = "byte_bits b"
  let ?rest = "concat (map byte_bits bs)"
  let ?sym = "\<lambda>g. alphabet enc ! bits_value g"
  show ?case
  proof (cases "length p \<le> 2")
    case True
    let ?p' = "drop 5 (p @ ?B)"
    let ?enc' = "enc\<lparr>buf := buf enc @ [?sym (take 5 (p @ ?B))],
          shift := 3 + length ?p', carry := push_bit (2 - length p) (unat b)\<rparr>"
    from write_byte_one [OF True Cons.prems(1,3), of b]
    have wb: "write_byte enc b = ?enc'"
      and ca: "carry ?enc' AND 31 = bits_value ?p' * 2 ^ (5 - length ?p')"
      by simp_all
    have len: "length ?p' \<le> 5" using True by (simp add: length_byte_bits)
    have "Encoder_finalize (Encoder_write ?enc' bs)
        = buf ?enc' @ map (\<lambda>g. alphabet ?enc' ! bits_value g) (groups5 (?p' @ ?rest))"
      by (rule Cons.IH [OF _ len ca]) simp
    moreover have "length (take 5 (p @ ?B)) = 5" by (simp add: length_byte_bits)
    then have "groups5 (take 5 (p @ ?B) @ (?p' @ ?rest)) = take 5 (p @ ?B) # groups5 (?p' @ ?rest)"
      by (rule groups5_full)
    then have "groups5 (p @ concat (map byte_bits (b # bs))) = take 5 (p @ ?B) # groups5 (?p' @ ?rest)"
      by (simp only: append_assoc [symmetric] append_take_drop_id concat.simps list.map)
    ultimately show ?thesis
      by (simp add: Encoder_write_def wb)
  next
    case False
    then have r: "3 \<le> length p" by simp
    let ?p' = "drop 10 (p @ ?B)"
    let ?g1 = "take 5 (p @ ?B)" and ?g2 = "take 5 (drop 5 (p @ ?B))"
    let ?enc' = "enc\<lparr>buf := buf enc @ [?sym ?g1, ?sym ?g2],
          shift := 3 + length ?p', carry := push_bit (7 - length p) (unat b)\<rparr>"
    from write_byte_two [OF r Cons.prems(2,1,3), of b]
    have wb: "write_byte enc b = ?enc'"
      and ca: "carry ?enc' AND 31 = bits_value ?p' * 2 ^ (5 - length ?p')"
      by simp_all
    have len: "length ?p' \<le> 5" using Cons.prems(2) by (simp add: length_byte_bits)
    have ih: "Encoder_finalize (Encoder_write ?enc' bs)
        = buf ?enc' @ map (\<lambda>g. alphabet ?enc' ! bits_value g) (groups5 (?p' @ ?rest))"
      by (rule Cons.IH [OF _ len ca]) simp
    have l1: "length ?g1 = 5" by (simp add: length_byte_bits)
    have l2: "length ?g2 = 5" using r by (simp add: length_byte_bits)
    have split: "p @ ?B = ?g1 @ ?g2 @ ?p'"
      by (rule split_two_groups)
    have "groups5 (p @ concat (map byte_bits (b # bs))) = groups5 (?g1 @ (?g2 @ (?p' @ ?rest)))"
      using split by (metis append_assoc concat.simps(2) list.simps(9))
    also have "\<dots> = ?g1 # ?g2 # groups5 (?p' @ ?rest)"
      by (simp only: groups5_full [OF l1] groups5_full [OF l2])
    finally show ?thesis
      using ih by (simp add: Encoder_write_def wb)
  qed
qed

lemma encodeBase32_refines: "encodeBase32 b = spec_base32 rfc4648_alphabet b"
proof -
  have "Encoder_finalize (Encoder_write new_Encoder b)
    = buf new_Encoder @ map (\<lambda>g. alphabet new_Encoder ! bits_value g)
        (groups5 ([] @ concat (map byte_bits b)))"
    by (rule encoder_refines) (simp_all add: new_Encoder_def)
  then show ?thesis
    by (simp add: encodeBase32_def spec_base32_def new_Encoder_def)
qed

lemma groups5_lengths: "\<forall>g\<in>set (groups5 xs). length g = 5"
  by (induction xs rule: groups5.induct) simp_all

lemma length_groups5: "length (groups5 xs) = (length xs + 4) div 5"
proof (induction xs rule: groups5.induct)
  case 1
  then show ?case by simp
next
  case (2 b bs)
  show ?case
  proof (cases "4 \<le> length bs")
    case True
    then have "length bs - 4 + 4 = length bs" by simp
    with 2 show ?thesis by simp
  next
    case False
    with 2 show ?thesis by simp
  qed
qed

lemma length_concat_byte_bits: "length (concat (map byte_bits bs)) = 8 * length bs"
  by (induction bs) (simp_all add: length_byte_bits)

lemma rfc4648_alphabet_nth:
  assumes "n < 32"
  shows "rfc4648_alphabet ! n \<in> set ''ABCDEFGHIJKLMNOPQRSTUVWXYZ234567''"
proof -
  have "length rfc4648_alphabet = 32" by (simp add: rfc4648_alphabet_def)
  with assms have "rfc4648_alphabet ! n \<in> set rfc4648_alphabet"
    by (simp only: nth_mem)
  then show ?thesis by (simp only: rfc4648_alphabet_def)
qed

text \<open>
  C7, amended. \<open>bufferToKey buf\<close> is \<open>/\<close> followed by \<open>encodeBase32 buf\<close>, which
  is the base 32 encoding of RFC 4648 in the upper-case alphabet without padding: one
  character for every five bits, rounded up, all of them from \<open>A-Z2-7\<close>, none of
  them \<open>=\<close>.
\<close>

theorem bufferToKey_base32_upper:
  "bufferToKey b = ''/'' @ spec_base32 rfc4648_alphabet b
   \<and> length (encodeBase32 b) = (8 * length b + 4) div 5
   \<and> set (encodeBase32 b) \<subseteq> set ''ABCDEFGHIJKLMNOPQRSTUVWXYZ234567''
   \<and> CHR ''='' \<notin> set (encodeBase32 b)"
proof -
  have key: "bufferToKey b = ''/'' @ spec_base32 rfc4648_alphabet b"
    by (simp add: bufferToKey_def encodeBase32_refines)
  have len: "length (encodeBase32 b) = (8 * length b + 4) div 5"
    by (simp add: encodeBase32_refines spec_base32_def length_groups5 length_concat_byte_bits)
  have sub: "set (encodeBase32 b) \<subseteq> set ''ABCDEFGHIJKLMNOPQRSTUVWXYZ234567''"
  proof
    fix c assume "c \<in> set (encodeBase32 b)"
    then obtain g where g: "g \<in> set (groups5 (concat (map byte_bits b)))"
      and c: "c = rfc4648_alphabet ! bits_value g"
      by (auto simp: encodeBase32_refines spec_base32_def)
    from g have "length g = 5" using groups5_lengths by blast
    then have "bits_value g < 32" using bits_value_bound [of g] by simp
    then show "c \<in> set ''ABCDEFGHIJKLMNOPQRSTUVWXYZ234567''"
      unfolding c by (rule rfc4648_alphabet_nth)
  qed
  then have "CHR ''='' \<notin> set (encodeBase32 b)" by auto
  with key len sub show ?thesis by simp
qed

text \<open>
  C7 as stated fails: the key of the one byte 0 is \<open>/AA\<close>; in the lower-case alphabet
  it would be \<open>/aa\<close>.
\<close>

theorem bufferToKey_lowercase_counterexample:
  "bufferToKey [0] = ''/AA''
   \<and> ''/'' @ spec_base32 lowercase_alphabet [0] = ''/aa''
   \<and> bufferToKey [0] \<noteq> ''/'' @ spec_base32 lowercase_alphabet [0]"
  by (simp add: bufferToKey_def encodeBase32_def Encoder_write_def write_byte_def Encoder_finalize_def
      new_Encoder_def rfc4648_alphabet_def spec_base32_def lowercase_alphabet_def byte_bits_def
      numeral_2_eq_2 numeral_3_eq_3 eval_nat_numeral)

lemma encodeBase32_hello: "encodeBase32 (Buffer_from ''hello'') = ''NBSWY3DP''"
  by code_simp

end
